theory Spec2Isabelle
  imports
    Main
    "HOL-Library.Char_ord"
    "HOL-Library.List_Lexorder"
    "HOL-Library.Sublist"
begin

section \<open>Python strings and \<^verbatim>\<open>os.path\<close> (POSIX)\<close>

text \<open>
  Strings are lists of 8-bit characters, ordered by character code and then
  lexicographically, which is how Python orders \<^verbatim>\<open>str\<close> values made of ASCII
  characters. File names outside ASCII are not covered by the model.
\<close>

text \<open>\<^verbatim>\<open>s.replace(old, new)\<close>: every non-overlapping occurrence, left to right.\<close>

function str_replace :: "string \<Rightarrow> string \<Rightarrow> string \<Rightarrow> string" where
  "str_replace old new [] = (if old = [] then new else [])"
| "str_replace old new (c # cs) =
     (if old = [] then new @ c # str_replace old new cs
      else if prefix old (c # cs)
        then new @ str_replace old new (drop (length old) (c # cs))
        else c # str_replace old new cs)"
  by pat_completeness auto
termination
  by (relation "measure (\<lambda>(old, new, s). length s)") (auto simp: neq_Nil_conv)

text \<open>\<^verbatim>\<open>s.split(sep)\<close> for a one-character separator: empty fields are kept.\<close>

fun str_split :: "char \<Rightarrow> string \<Rightarrow> string list" where
  "str_split sep [] = [[]]"
| "str_split sep (c # cs) =
     (if c = sep then [] # str_split sep cs
      else (case str_split sep cs of
              [] \<Rightarrow> [[c]]
            | w # ws \<Rightarrow> (c # w) # ws))"

text \<open>\<^verbatim>\<open>s.strip(ch)\<close> for a one-character set.\<close>

definition str_strip :: "char \<Rightarrow> string \<Rightarrow> string" where
  "str_strip ch s = rev (dropWhile (\<lambda>c. c = ch) (rev (dropWhile (\<lambda>c. c = ch) s)))"

definition endswith :: "string \<Rightarrow> string \<Rightarrow> bool" where
  "endswith s suf = suffix suf s"

text \<open>\<^verbatim>\<open>os.path.basename\<close>: what follows the last slash.\<close>

definition basename :: "string \<Rightarrow> string" where
  "basename p = last (str_split CHR ''/'' p)"

text \<open>\<^verbatim>\<open>os.path.join\<close>: an absolute component discards what precedes it.\<close>

definition path_join :: "string \<Rightarrow> string \<Rightarrow> string" where
  "path_join a b =
     (if prefix ''/'' b then b
      else if a = [] \<or> endswith a ''/'' then a @ b
      else a @ ''/'' @ b)"

definition path_join_list :: "string \<Rightarrow> string list \<Rightarrow> string" where
  "path_join_list a ps = foldl path_join a ps"

text \<open>
  \<^verbatim>\<open>os.path.normpath\<close>: the loop over the components keeps the list
  \<^verbatim>\<open>new_comps\<close>; \<^verbatim>\<open>initial_slashes\<close> is 0, 1 or 2.
\<close>

fun norm_comps :: "nat \<Rightarrow> string list \<Rightarrow> string list \<Rightarrow> string list" where
  "norm_comps initial_slashes new_comps [] = new_comps"
| "norm_comps initial_slashes new_comps (part # comps) =
     (if part = [] \<or> part = ''.'' then norm_comps initial_slashes new_comps comps
      else if part \<noteq> ''..'' \<or> (initial_slashes = 0 \<and> new_comps = [])
              \<or> (new_comps \<noteq> [] \<and> last new_comps = ''..'')
        then norm_comps initial_slashes (new_comps @ [part]) comps
      else if new_comps \<noteq> [] then norm_comps initial_slashes (butlast new_comps) comps
      else norm_comps initial_slashes new_comps comps)"

fun str_join :: "string \<Rightarrow> string list \<Rightarrow> string" where
  "str_join sep [] = []"
| "str_join sep [x] = x"
| "str_join sep (x # y # ys) = x @ sep @ str_join sep (y # ys)"

definition normpath :: "string \<Rightarrow> string" where
  "normpath path =
     (if path = [] then ''.''
      else
        let initial_slashes =
              (if prefix ''/'' path
               then (if prefix ''//'' path \<and> \<not> prefix ''///'' path then 2 else 1)
               else 0);
            comps = norm_comps initial_slashes [] (str_split CHR ''/'' path);
            p = replicate initial_slashes CHR ''/'' @ str_join ''/'' comps
        in if p = [] then ''.'' else p)"

text \<open>\<^verbatim>\<open>os.path.abspath\<close>, with the working directory as a parameter.\<close>

definition abspath :: "string \<Rightarrow> string \<Rightarrow> string" where
  "abspath cwd path = normpath (if prefix ''/'' path then path else path_join cwd path)"

fun commonprefix :: "string list \<Rightarrow> string list \<Rightarrow> string list" where
  "commonprefix (x # xs) (y # ys) = (if x = y then x # commonprefix xs ys else [])"
| "commonprefix _ _ = []"

section \<open>Errors\<close>

text \<open>
  Every exception of the source is a value. \<open>Exception\<close> stands for any exception
  that user code (a unit's body, or the module's top level) raises.
\<close>

datatype error =
    FileNotFoundError string
  | ValueError string
  | KeyError string
  | AttributeError string
  | OSError string
  | RecursionError
  | Exception string

text \<open>\<^verbatim>\<open>os.path.relpath(path, start)\<close>.\<close>

definition relpath :: "string \<Rightarrow> string \<Rightarrow> string \<Rightarrow> error + string" where
  "relpath cwd path start =
     (if path = [] then Inl (ValueError ''no path specified'')
      else
        let start_list = filter (\<lambda>x. x \<noteq> []) (str_split CHR ''/'' (abspath cwd start));
            path_list = filter (\<lambda>x. x \<noteq> []) (str_split CHR ''/'' (abspath cwd path));
            i = length (commonprefix start_list path_list);
            rel_list = replicate (length start_list - i) ''..'' @ drop i path_list
        in if rel_list = [] then Inr ''.'' else Inr (str_join ''/'' rel_list))"

section \<open>Storage engines\<close>

text \<open>
  \<open>MemoryStorageEngine\<close> keeps a dictionary whose values are all \<open>True\<close>;
  \<open>DynamoDBStorageEngine\<close> keeps a table keyed by \<open>filename\<close>, modelled by the
  list of its keys in scan order. The table is taken to exist, the backend to
  answer and a scan to return the whole table; debug and info logging is left
  out.
\<close>

datatype storage =
    Memory "string \<rightharpoonup> bool"
  | DynamoDB "string list"

fun has_run :: "storage \<Rightarrow> string \<Rightarrow> bool" where
  "has_run (Memory data) filename = (filename \<in> dom data)"
| "has_run (DynamoDB items) filename = (filename \<in> set items)"

fun store :: "storage \<Rightarrow> string \<Rightarrow> storage" where
  "store (Memory data) filename = Memory (data(filename \<mapsto> True))"
| "store (DynamoDB items) filename =
     DynamoDB (if filename \<in> set items then items else items @ [filename])"

text \<open>
  \<^verbatim>\<open>del self.data[filename]\<close> raises \<open>KeyError\<close> on a missing key;
  \<^verbatim>\<open>delete_item\<close> does not.
\<close>

fun delete :: "storage \<Rightarrow> string \<Rightarrow> error + storage" where
  "delete (Memory data) filename =
     (if filename \<in> dom data then Inr (Memory (data(filename := None)))
      else Inl (KeyError filename))"
| "delete (DynamoDB items) filename = Inr (DynamoDB (removeAll filename items))"

text \<open>Python's \<^verbatim>\<open>xs[start:]\<close> for any integer \<open>start\<close>.\<close>

definition slice_from :: "int \<Rightarrow> 'a list \<Rightarrow> 'a list" where
  "slice_from start xs =
     (let n = int (length xs);
          i = (if start < 0 then max (n + start) 0 else min start n)
      in drop (nat i) xs)"

text \<open>
  \<^verbatim>\<open>sorted(items, reverse=True, key=...)[-n:]\<close>. The memory engine has no
  \<open>get_last_n\<close> method.
\<close>

fun get_last_n :: "storage \<Rightarrow> int \<Rightarrow> error + string list" where
  "get_last_n (Memory data) n = Inl (AttributeError ''get_last_n'')"
| "get_last_n (DynamoDB items) n = Inr (slice_from (- n) (rev (sort items)))"

section \<open>Migration units, the file system, and the state of a run\<close>

text \<open>
  What importing a migration file gives: the optional \<open>dependencies\<close> list
  (\<open>None\<close> when the module has no such attribute) and the two bodies. A body is
  opaque: it acts on a world of any type \<open>'w\<close> and may raise, leaving the world
  as far as it got. The world does not hold the applied-state record, which only
  the storage engine reads and writes. A module without a callable \<open>up\<close> or
  \<open>down\<close> is a body that raises at once.
\<close>

record 'w pymodule =
  mod_dependencies :: "string list option"
  mod_up :: "'w \<Rightarrow> error option \<times> 'w"
  mod_down :: "'w \<Rightarrow> error option \<times> 'w"

text \<open>
  The module object that \<open>_load_script\<close> returns, with the two attributes it
  sets; \<open>file_path\<close> is the path the module was loaded from.
\<close>

record 'w script =
  filename :: string
  dependency_path :: string
  file_path :: string
  dependencies :: "string list option"
  script_up :: "'w \<Rightarrow> error option \<times> 'w"
  script_down :: "'w \<Rightarrow> error option \<times> 'w"

text \<open>
  The operating system, as the calls the migrator makes. \<open>import_module\<close> is the
  outcome of building the import spec and executing the module: \<open>Inl\<close> when the
  source raises there.
\<close>

record 'w filesystem =
  cwd :: string
  listdir :: "string \<Rightarrow> error + string list"
  path_exists :: "string \<Rightarrow> bool"
  isdir :: "string \<Rightarrow> bool"
  import_module :: "string \<Rightarrow> error + 'w pymodule"

text \<open>
  What a run does that can be observed: the bodies it executes (named by the file
  of the unit), the \<open>store\<close> and \<open>delete\<close> calls it issues, and the errors it logs.
\<close>

datatype event =
    RunUp string
  | RunDown string
  | Store string
  | Delete string
  | LogError string

record config =
  dry_run :: bool
  migrate_dependencies :: bool

record 'w state =
  storage_engine :: storage
  directory :: string
  world :: 'w
  trace :: "event list"

text \<open>A call either returns a value or raises; both leave a state behind.\<close>

datatype ('a, 'w) result =
    Return 'a "'w state"
  | Raise error "'w state"

definition log_event :: "event \<Rightarrow> 'w state \<Rightarrow> 'w state" where
  "log_event ev s = s\<lparr>trace := trace s @ [ev]\<rparr>"

definition do_store :: "string \<Rightarrow> 'w state \<Rightarrow> 'w state" where
  "do_store k s = (log_event (Store k) s)\<lparr>storage_engine := store (storage_engine s) k\<rparr>"

definition do_delete :: "string \<Rightarrow> 'w state \<Rightarrow> (unit, 'w) result" where
  "do_delete k s =
     (case delete (storage_engine s) k of
        Inl e \<Rightarrow> Raise e (log_event (Delete k) s)
      | Inr st \<Rightarrow> Return () ((log_event (Delete k) s)\<lparr>storage_engine := st\<rparr>))"

section \<open>MigratorHelpers\<close>

definition load_script :: "'w filesystem \<Rightarrow> string \<Rightarrow> string \<Rightarrow> error + 'w script" where
  "load_script fs dir path =
     (if \<not> path_exists fs path
      then Inl (FileNotFoundError (''Migration script not found: '' @ path))
      else
        case relpath (cwd fs) path dir of
          Inl e \<Rightarrow> Inl e
        | Inr rel \<Rightarrow>
            (case import_module fs path of
               Inl e \<Rightarrow> Inl e
             | Inr m \<Rightarrow>
                 Inr \<lparr>filename =
                        str_strip CHR ''/'' (str_replace dir [] (str_replace ''.py'' [] path)),
                      dependency_path = str_replace ''.py'' [] rel,
                      file_path = path,
                      dependencies = mod_dependencies m,
                      script_up = mod_up m,
                      script_down = mod_down m\<rparr>))"

text \<open>
  \<^verbatim>\<open>re.match(r'\d{14}_.*\.py$', filename)\<close>: fourteen digits, an underscore,
  then a line ending in \<^verbatim>\<open>.py\<close>; \<^verbatim>\<open>$\<close> also matches before one final
  newline, and \<^verbatim>\<open>.\<close> matches no newline.
\<close>

definition is_digit :: "char \<Rightarrow> bool" where
  "is_digit c = (c \<in> set ''0123456789'')"

definition is_migration_file :: "string \<Rightarrow> bool" where
  "is_migration_file f =
     (let rest = drop 15 f;
          core = (if rest \<noteq> [] \<and> last rest = CHR 0x0A then butlast rest else rest)
      in length (take 14 f) = 14 \<and> list_all is_digit (take 14 f) \<and>
         take 1 (drop 14 f) = ''_'' \<and> CHR 0x0A \<notin> set core \<and> endswith core ''.py'')"

definition list_migrations :: "'w filesystem \<Rightarrow> string \<Rightarrow> error + string list" where
  "list_migrations fs d =
     (case listdir fs d of
        Inl e \<Rightarrow> Inl e
      | Inr names \<Rightarrow> Inr (map (path_join d) (filter is_migration_file names)))"

definition find_modules_with_migrations :: "'w filesystem \<Rightarrow> string \<Rightarrow> error + string list" where
  "find_modules_with_migrations fs dir =
     (case listdir fs dir of
        Inl e \<Rightarrow> Inl e
      | Inr items \<Rightarrow>
          Inr (filter (\<lambda>module_path. isdir fs module_path \<and>
                          path_exists fs (path_join module_path ''migrations''))
                 (map (path_join dir) items)))"

fun collect_module_files ::
  "'w filesystem \<Rightarrow> string list \<Rightarrow> string list \<Rightarrow> error + string list" where
  "collect_module_files fs migration_files [] = Inr migration_files"
| "collect_module_files fs migration_files (module_path # modules) =
     (case list_migrations fs (path_join module_path ''migrations'') of
        Inl e \<Rightarrow> Inl e
      | Inr found \<Rightarrow> collect_module_files fs (migration_files @ found) modules)"

text \<open>The three layouts of \<open>_find_all_migration_files\<close>, before the duplicate check.\<close>

definition scan_migration_files :: "'w filesystem \<Rightarrow> 'w state \<Rightarrow> (string list, 'w) result" where
  "scan_migration_files fs s =
     (case list_migrations fs (directory s) of
        Inl e \<Rightarrow> Raise e s
      | Inr migration_files \<Rightarrow>
          if migration_files \<noteq> [] then Return migration_files s
          else if path_exists fs (path_join (directory s) ''migrations'') then
            (let s' = s\<lparr>directory := path_join (directory s) ''migrations''\<rparr>
             in case list_migrations fs (directory s') of
                  Inl e \<Rightarrow> Raise e s'
                | Inr found \<Rightarrow> Return found s')
          else
            (case find_modules_with_migrations fs (directory s) of
               Inl e \<Rightarrow> Raise e s
             | Inr modules \<Rightarrow>
                 (case collect_module_files fs migration_files modules of
                    Inl e \<Rightarrow> Raise e s
                  | Inr found \<Rightarrow> Return found s)))"

definition migration_name :: "string \<Rightarrow> string" where
  "migration_name f = str_replace ''.py'' [] (basename f)"

definition migration_timestamp :: "string \<Rightarrow> string" where
  "migration_timestamp f =
     (case str_split CHR ''_'' (migration_name f) of [] \<Rightarrow> [] | t # _ \<Rightarrow> t)"

fun check_duplicates ::
  "(string \<rightharpoonup> bool) \<Rightarrow> (string \<rightharpoonup> bool) \<Rightarrow> string list \<Rightarrow> error option" where
  "check_duplicates migration_names migration_timestamps [] = None"
| "check_duplicates migration_names migration_timestamps (f # fs) =
     (if migration_name f \<in> dom migration_names
      then Some (ValueError (''Duplicate migration file name used: '' @ f))
      else if migration_timestamp f \<in> dom migration_timestamps
      then Some (ValueError (''Duplicate migration timestamp used: '' @ f))
      else check_duplicates (migration_names(migration_name f \<mapsto> True))
             (migration_timestamps(migration_timestamp f \<mapsto> True)) fs)"

definition find_all_migration_files :: "'w filesystem \<Rightarrow> 'w state \<Rightarrow> (string list, 'w) result" where
  "find_all_migration_files fs s =
     (case scan_migration_files fs s of
        Raise e s' \<Rightarrow> Raise e s'
      | Return migration_files s' \<Rightarrow>
          (case check_duplicates Map.empty Map.empty migration_files of
             Some e \<Rightarrow> Raise e s'
           | None \<Rightarrow> Return migration_files s'))"

definition resolve_dependency_path :: "string \<Rightarrow> string \<Rightarrow> string" where
  "resolve_dependency_path dir dependency =
     (case str_split CHR ''/'' dependency of
        [module_name, migrations_folder, name] \<Rightarrow>
          if migrations_folder = ''migrations''
          then path_join_list dir [module_name, migrations_folder, name @ ''.py'']
          else path_join dir (dependency @ ''.py'')
      | _ \<Rightarrow> path_join dir (dependency @ ''.py''))"

section \<open>Migrator\<close>

text \<open>
  The methods \<open>up\<close>, \<open>down\<close>, \<open>migrate\<close> and \<open>rollback\<close>. The methods \<open>status\<close>
  and \<open>make_empty\<close> are not part of this development.
\<close>

text \<open>The last block of \<open>up\<close>: the body, then \<open>store\<close>, unless this is a dry run.\<close>

definition run_up :: "config \<Rightarrow> 'w script \<Rightarrow> 'w state \<Rightarrow> (unit, 'w) result" where
  "run_up cfg script s =
     (if \<not> dry_run cfg then
        (let s1 = log_event (RunUp (file_path script)) s
         in case script_up script (world s1) of
              (Some e, w) \<Rightarrow> Raise e (s1\<lparr>world := w\<rparr>)
            | (None, w) \<Rightarrow> Return () (do_store (dependency_path script) (s1\<lparr>world := w\<rparr>)))
      else Return () s)"

text \<open>
  How the loop over the dependencies ends: it runs to its end, or \<open>up\<close> returns
  from inside it.
\<close>

datatype flow = Proceed | Returned

text \<open>
  \<open>up\<close> calls itself on a dependency; \<open>depth\<close> is how many nested calls remain
  before Python's recursion limit, where \<open>RecursionError\<close> is raised.
\<close>

fun up :: "nat \<Rightarrow> config \<Rightarrow> 'w filesystem \<Rightarrow> 'w script \<Rightarrow> 'w state \<Rightarrow> (unit, 'w) result"
  and up_dependencies ::
    "nat \<Rightarrow> config \<Rightarrow> 'w filesystem \<Rightarrow> 'w script \<Rightarrow> string list \<Rightarrow> 'w state \<Rightarrow> (flow, 'w) result"
where
  "up depth cfg fs script s =
     (if has_run (storage_engine s) (filename script) then Return () s
      else
        case (case dependencies script of
                None \<Rightarrow> Return Proceed s
              | Some deps \<Rightarrow> up_dependencies depth cfg fs script deps s) of
          Raise e s' \<Rightarrow> Raise e s'
        | Return Returned s' \<Rightarrow> Return () s'
        | Return Proceed s' \<Rightarrow> run_up cfg script s')"
| "up_dependencies depth cfg fs script [] s = Return Proceed s"
| "up_dependencies depth cfg fs script (dependency # rest) s =
     (case load_script fs (directory s) (resolve_dependency_path (directory s) dependency) of
        Inl e \<Rightarrow> Raise e s
      | Inr dependency_script \<Rightarrow>
          if \<not> has_run (storage_engine s) (dependency_path dependency_script) then
            if \<not> migrate_dependencies cfg then
              Return Returned
                (log_event (LogError (filename script @ '' has not been run because '' @
                   dependency_path dependency_script @ '' has not been run'')) s)
            else
              (case load_script fs (directory s)
                      (resolve_dependency_path (directory s) dependency) of
                 Inl e \<Rightarrow> Raise e s
               | Inr dependency_script \<Rightarrow>
                   (case depth of
                      0 \<Rightarrow> Raise RecursionError s
                    | Suc d \<Rightarrow>
                        (case up d cfg fs dependency_script s of
                           Raise e s' \<Rightarrow> Raise e s'
                         | Return _ s' \<Rightarrow> up_dependencies depth cfg fs script rest s')))
          else up_dependencies depth cfg fs script rest s)"

definition down :: "config \<Rightarrow> 'w script \<Rightarrow> 'w state \<Rightarrow> (unit, 'w) result" where
  "down cfg script s =
     (if \<not> has_run (storage_engine s) (filename script) then Return () s
      else if \<not> dry_run cfg then
        (let s1 = log_event (RunDown (file_path script)) s
         in case script_down script (world s1) of
              (Some e, w) \<Rightarrow> Raise e (s1\<lparr>world := w\<rparr>)
            | (None, w) \<Rightarrow> do_delete (dependency_path script) (s1\<lparr>world := w\<rparr>))
      else Return () s)"

definition migrate_up ::
  "nat \<Rightarrow> config \<Rightarrow> 'w filesystem \<Rightarrow> string \<Rightarrow> 'w state \<Rightarrow> (unit, 'w) result" where
  "migrate_up depth cfg fs fname s =
     (case load_script fs (directory s) (path_join (directory s) fname) of
        Inl e \<Rightarrow> Raise e s
      | Inr script \<Rightarrow> up depth cfg fs script s)"

fun migrate_loop ::
  "nat \<Rightarrow> config \<Rightarrow> 'w filesystem \<Rightarrow> string list \<Rightarrow> 'w state \<Rightarrow> (unit, 'w) result" where
  "migrate_loop depth cfg fs [] s = Return () s"
| "migrate_loop depth cfg fs (full_path # paths) s =
     (case migrate_up depth cfg fs full_path s of
        Raise e s' \<Rightarrow> Raise e s'
      | Return _ s' \<Rightarrow> migrate_loop depth cfg fs paths s')"

definition migrate :: "nat \<Rightarrow> config \<Rightarrow> 'w filesystem \<Rightarrow> 'w state \<Rightarrow> (unit, 'w) result" where
  "migrate depth cfg fs s =
     (case find_all_migration_files fs s of
        Raise e s' \<Rightarrow> Raise e s'
      | Return migration_files s' \<Rightarrow> migrate_loop depth cfg fs (sort migration_files) s')"

text \<open>
  The loop of \<open>rollback\<close>: \<open>count\<close> is compared with \<open>n\<close> after each unit, so
  the loop stops early only when \<open>count\<close> reaches \<open>n\<close> exactly.
\<close>

fun rollback_loop ::
  "config \<Rightarrow> 'w filesystem \<Rightarrow> (string \<rightharpoonup> string) \<Rightarrow> int \<Rightarrow> int \<Rightarrow> string list \<Rightarrow> 'w state
     \<Rightarrow> (unit, 'w) result" where
  "rollback_loop cfg fs migrations_map n count [] s = Return () s"
| "rollback_loop cfg fs migrations_map n count (f # files) s =
     (case migrations_map (migration_name f) of
        None \<Rightarrow> Raise (KeyError (migration_name f)) s
      | Some path \<Rightarrow>
          (case load_script fs (directory s) path of
             Inl e \<Rightarrow> Raise e s
           | Inr script \<Rightarrow>
               (case down cfg script s of
                  Raise e s' \<Rightarrow> Raise e s'
                | Return _ s' \<Rightarrow>
                    if count + 1 = n then Return () s'
                    else rollback_loop cfg fs migrations_map n (count + 1) files s')))"

definition rollback :: "config \<Rightarrow> 'w filesystem \<Rightarrow> int \<Rightarrow> 'w state \<Rightarrow> (unit, 'w) result" where
  "rollback cfg fs n s =
     (case find_all_migration_files fs s of
        Raise e s' \<Rightarrow> Raise e s'
      | Return migration_files s' \<Rightarrow>
          (let migrations_map =
                 fold (\<lambda>f m. m(migration_name f \<mapsto> f)) migration_files Map.empty
           in case get_last_n (storage_engine s') n of
                Inl e \<Rightarrow> Raise e s'
              | Inr last_n \<Rightarrow> rollback_loop cfg fs migrations_map n 0 last_n s'))"

text \<open>The dependency loop of \<open>up\<close>, or nothing when the module has no list.\<close>

definition dependency_phase ::
  "nat \<Rightarrow> config \<Rightarrow> 'w filesystem \<Rightarrow> 'w script \<Rightarrow> 'w state \<Rightarrow> (flow, 'w) result" where
  "dependency_phase depth cfg fs script s =
     (case dependencies script of
        None \<Rightarrow> Return Proceed s
      | Some deps \<Rightarrow> up_dependencies depth cfg fs script deps s)"

section \<open>The command line\<close>

text \<open>
  \<open>main\<close> up to the call it makes on the migrator: the parsed arguments, the
  two exits, and which method is invoked on a migrator of which configuration.
  \<open>argparse\<close> admits only the five commands. \<open>Migrator\<close> has no method
  \<open>migrate_script\<close>; the call is recorded as it is written.
\<close>

datatype command = CmdUp | CmdDown | CmdRollback | CmdStatus | CmdMake

record args =
  arg_engine :: string
  arg_directory :: string
  arg_file :: "string option"
  arg_dry_run :: bool
  arg_migrate_dependencies :: bool
  arg_command :: command
  arg_n :: int

datatype engine_kind = UseDynamoDB | UseMemory

datatype invocation =
    CallMigrate
  | CallMigrateScript string
  | CallRollback int
  | CallStatus
  | CallMakeEmpty

datatype dispatch =
    SysExit int string
  | Invoke engine_kind string config invocation

text \<open>\<^verbatim>\<open>os.path.dirname\<close>.\<close>

definition dirname :: "string \<Rightarrow> string" where
  "dirname p =
     (let head = take (length p - length (basename p)) p
      in if head \<noteq> [] \<and> head \<noteq> replicate (length head) CHR ''/''
         then rev (dropWhile (\<lambda>c. c = CHR ''/'') (rev head))
         else head)"

definition main :: "string \<Rightarrow> args \<Rightarrow> dispatch" where
  "main working_directory a =
     (if arg_engine a \<noteq> ''dynamodb'' \<and> arg_engine a \<noteq> ''memory''
      then SysExit 1 ''Invalid engine''
      else if arg_command a = CmdRollback \<and> arg_n a < 1
      then SysExit 1 ''Invalid number of migrations to rollback''
      else
        let kind = (if arg_engine a = ''dynamodb'' then UseDynamoDB else UseMemory);
            dir = abspath working_directory (arg_directory a);
            cfg = \<lparr>dry_run = arg_dry_run a,
                   migrate_dependencies = arg_migrate_dependencies a\<rparr>
        in case arg_command a of
             CmdUp \<Rightarrow>
               (case arg_file a of
                  None \<Rightarrow> Invoke kind dir cfg CallMigrate
                | Some f \<Rightarrow>
                    if f = [] then Invoke kind dir cfg CallMigrate
                    else Invoke kind (dirname f) cfg (CallMigrateScript f))
           | CmdRollback \<Rightarrow> Invoke kind dir cfg (CallRollback (arg_n a))
           | CmdDown \<Rightarrow> Invoke kind dir cfg (CallRollback (arg_n a))
           | CmdStatus \<Rightarrow> Invoke kind dir cfg CallStatus
           | CmdMake \<Rightarrow> Invoke kind dir cfg CallMakeEmpty)"

section \<open>Reading a run\<close>

definition state_of :: "('a, 'w) result \<Rightarrow> 'w state" where
  "state_of r = (case r of Return _ s \<Rightarrow> s | Raise _ s \<Rightarrow> s)"

text \<open>The events a call added to the trace it started from.\<close>

definition new_events :: "'w state \<Rightarrow> ('a, 'w) result \<Rightarrow> event list" where
  "new_events s r = drop (length (trace s)) (trace (state_of r))"

text \<open>Directory listings hold names, which have no slash in them.\<close>

definition names_ok :: "'w filesystem \<Rightarrow> bool" where
  "names_ok fs =
     (\<forall>d names. listdir fs d = Inr names \<longrightarrow> (\<forall>n \<in> set names. CHR ''/'' \<notin> set n))"

fun is_log :: "event \<Rightarrow> bool" where
  "is_log (LogError _) = True"
| "is_log _ = False"

text \<open>A state that differs from another by logged errors only.\<close>

definition only_logs :: "'w state \<Rightarrow> 'w state \<Rightarrow> bool" where
  "only_logs s s' = (\<exists>log. list_all is_log log \<and> s' = s\<lparr>trace := trace s @ log\<rparr>)"

text \<open>
  A unit counts as recorded when \<open>has_run\<close> answers true for one of the two
  identifiers the migrator asks about: \<open>dependency_path\<close> in the dependency loop,
  \<open>filename\<close> on entry to \<open>up\<close>.
\<close>

definition recorded :: "storage \<Rightarrow> 'w script \<Rightarrow> bool" where
  "recorded st u = (has_run st (dependency_path u) \<or> has_run st (filename u))"

text \<open>The storage after the \<open>store\<close> and \<open>delete\<close> calls of a trace.\<close>

fun storage_after :: "event list \<Rightarrow> storage \<Rightarrow> storage" where
  "storage_after [] st = st"
| "storage_after (Store k # evs) st = storage_after evs (store st k)"
| "storage_after (Delete k # evs) st =
     storage_after evs (case delete st k of Inl _ \<Rightarrow> st | Inr st' \<Rightarrow> st')"
| "storage_after (_ # evs) st = storage_after evs st"

text \<open>
  Every declared dependency of the unit at path \<open>p\<close> that loads is recorded in
  \<open>st\<close>.
\<close>

definition dependencies_recorded :: "'w filesystem \<Rightarrow> string \<Rightarrow> storage \<Rightarrow> string \<Rightarrow> bool" where
  "dependencies_recorded fs dir st p =
     (case load_script fs dir p of
        Inl _ \<Rightarrow> True
      | Inr u \<Rightarrow>
          (case dependencies u of
             None \<Rightarrow> True
           | Some deps \<Rightarrow>
               list_all (\<lambda>d. case load_script fs dir (resolve_dependency_path dir d) of
                               Inl _ \<Rightarrow> True
                             | Inr dep \<Rightarrow> recorded st dep) deps))"

text \<open>
  A trace read from the storage \<open>st\<close>: at each \<open>up\<close> body, the dependencies of the
  unit are recorded in the storage as it stands there.
\<close>

fun dependencies_first :: "'w filesystem \<Rightarrow> string \<Rightarrow> storage \<Rightarrow> event list \<Rightarrow> bool" where
  "dependencies_first fs dir st [] = True"
| "dependencies_first fs dir st (RunUp p # evs) =
     (dependencies_recorded fs dir st p \<and> dependencies_first fs dir st evs)"
| "dependencies_first fs dir st (ev # evs) =
     dependencies_first fs dir (storage_after [ev] st) evs"

text \<open>
  A trace in which every \<open>store\<close> comes straight after the \<open>up\<close> body of the unit
  that is stored under that key; \<open>prev\<close> is the event before the trace, if any.
\<close>

fun stores_after :: "'w filesystem \<Rightarrow> string \<Rightarrow> event option \<Rightarrow> event list \<Rightarrow> bool" where
  "stores_after fs dir prev [] = True"
| "stores_after fs dir prev (Store k # evs) =
     ((case prev of
         Some (RunUp q) \<Rightarrow>
           (case load_script fs dir q of Inl _ \<Rightarrow> False | Inr v \<Rightarrow> dependency_path v = k)
       | _ \<Rightarrow> False) \<and>
      stores_after fs dir (Some (Store k)) evs)"
| "stores_after fs dir prev (ev # evs) = stores_after fs dir (Some ev) evs"

definition stores_follow_bodies :: "'w filesystem \<Rightarrow> string \<Rightarrow> event list \<Rightarrow> bool" where
  "stores_follow_bodies fs dir evs = stores_after fs dir None evs"

text \<open>What the induction over \<open>up\<close> carries from the state before to the state after.\<close>

definition up_run_ok :: "'w filesystem \<Rightarrow> 'w state \<Rightarrow> 'w state \<Rightarrow> bool" where
  "up_run_ok fs s s' =
     (\<exists>new. trace s' = trace s @ new \<and> directory s' = directory s \<and>
        storage_engine s' = storage_after new (storage_engine s) \<and>
        dependencies_first fs (directory s) (storage_engine s) new \<and>
        stores_follow_bodies fs (directory s) new)"

text \<open>The files whose \<open>up\<close> body ran, in the order they ran.\<close>

fun run_ups :: "event list \<Rightarrow> string list" where
  "run_ups [] = []"
| "run_ups (RunUp p # evs) = p # run_ups evs"
| "run_ups (_ # evs) = run_ups evs"

fun run_downs :: "event list \<Rightarrow> string list" where
  "run_downs [] = []"
| "run_downs (RunDown p # evs) = p # run_downs evs"
| "run_downs (_ # evs) = run_downs evs"

text \<open>The leading fourteen characters of a file's base name, and their value.\<close>

definition timestamp14 :: "string \<Rightarrow> string" where
  "timestamp14 p = take 14 (basename p)"

definition digit_value :: "char \<Rightarrow> nat" where
  "digit_value c = of_char c - 48"

definition decimal_value :: "string \<Rightarrow> nat" where
  "decimal_value ds = foldl (\<lambda>acc c. 10 * acc + digit_value c) 0 ds"

section \<open>Example roots\<close>

text \<open>
  A file system given by its directory listings and its migration modules, and
  bodies that append a line to the world.
\<close>

definition mk_fs ::
  "(string \<times> string list) list \<Rightarrow> (string \<times> 'w pymodule) list \<Rightarrow> 'w filesystem" where
  "mk_fs dirs files =
     \<lparr>cwd = ''/'',
      listdir = (\<lambda>d. case map_of dirs d of
                        None \<Rightarrow> Inl (OSError d)
                      | Some names \<Rightarrow> Inr names),
      path_exists = (\<lambda>p. map_of dirs p \<noteq> None \<or> map_of files p \<noteq> None),
      isdir = (\<lambda>p. map_of dirs p \<noteq> None),
      import_module = (\<lambda>p. case map_of files p of
                              None \<Rightarrow> Inl (Exception (''Could not read module from path: '' @ p))
                            | Some m \<Rightarrow> Inr m)\<rparr>"

definition says :: "string \<Rightarrow> string list \<Rightarrow> error option \<times> string list" where
  "says line w = (None, w @ [line])"

definition fails :: "string \<Rightarrow> string list \<Rightarrow> error option \<times> string list" where
  "fails msg w = (Some (Exception msg), w)"

definition unit_module :: "string list option \<Rightarrow> string \<Rightarrow> string list pymodule" where
  "unit_module deps tag =
     \<lparr>mod_dependencies = deps, mod_up = says (''up '' @ tag), mod_down = says (''down '' @ tag)\<rparr>"

text \<open>
  The flat layout of the repository's example, with a third unit: the files of
  one directory, the dependency lists of the first two given, and the units as
  the loader returns them.
\<close>

definition fs_flat :: "string list option \<Rightarrow> string list option \<Rightarrow> string list filesystem" where
  "fs_flat deps4 deps6 =
     mk_fs [(''/m'', [''20240410094008_migration.py'', ''20240410094006_migration.py'',
                      ''20240410094004_migration.py''])]
       [(''/m/20240410094004_migration.py'', unit_module deps4 ''4004''),
        (''/m/20240410094006_migration.py'', unit_module deps6 ''4006''),
        (''/m/20240410094008_migration.py'', unit_module None ''4008'')]"

definition unit_4004 :: "string list option \<Rightarrow> string list script" where
  "unit_4004 deps =
     \<lparr>filename = ''20240410094004_migration'',
      dependency_path = ''20240410094004_migration'',
      file_path = ''/m/20240410094004_migration.py'',
      dependencies = deps,
      script_up = says ''up 4004'',
      script_down = says ''down 4004''\<rparr>"

definition unit_4006 :: "string list option \<Rightarrow> string list script" where
  "unit_4006 deps =
     \<lparr>filename = ''20240410094006_migration'',
      dependency_path = ''20240410094006_migration'',
      file_path = ''/m/20240410094006_migration.py'',
      dependencies = deps,
      script_up = says ''up 4006'',
      script_down = says ''down 4006''\<rparr>"

definition unit_4008 :: "string list script" where
  "unit_4008 =
     \<lparr>filename = ''20240410094008_migration'',
      dependency_path = ''20240410094008_migration'',
      file_path = ''/m/20240410094008_migration.py'',
      dependencies = None,
      script_up = says ''up 4008'',
      script_down = says ''down 4008''\<rparr>"

text \<open>A unit whose bodies raise.\<close>

definition unit_failing :: "string list script" where
  "unit_failing =
     \<lparr>filename = ''20240410094010_migration'',
      dependency_path = ''20240410094010_migration'',
      file_path = ''/m/20240410094010_migration.py'',
      dependencies = None,
      script_up = fails ''up failed'',
      script_down = fails ''down failed''\<rparr>"

text \<open>Two modules; the module that sorts first holds the later timestamp.\<close>

definition fs_modules :: "string list filesystem" where
  "fs_modules =
     mk_fs [(''/r'', [''a'', ''b'']),
            (''/r/a'', [''migrations'']),
            (''/r/b'', [''migrations'']),
            (''/r/a/migrations'', [''20240102000000_x.py'']),
            (''/r/b/migrations'', [''20240101000000_y.py''])]
       [(''/r/a/migrations/20240102000000_x.py'', unit_module None ''x''),
        (''/r/b/migrations/20240101000000_y.py'', unit_module None ''y'')]"

text \<open>Two modules whose units share a timestamp.\<close>

definition fs_duplicate :: "string list filesystem" where
  "fs_duplicate =
     mk_fs [(''/r'', [''a'', ''b'']),
            (''/r/a'', [''migrations'']),
            (''/r/b'', [''migrations'']),
            (''/r/a/migrations'', [''20240101000000_x.py'']),
            (''/r/b/migrations'', [''20240101000000_y.py''])]
       [(''/r/a/migrations/20240101000000_x.py'', unit_module None ''x''),
        (''/r/b/migrations/20240101000000_y.py'', unit_module None ''y'')]"

text \<open>A root \<open>/app\<close> with one module, itself named \<open>app\<close>.\<close>

definition fs_app :: "string list filesystem" where
  "fs_app =
     mk_fs [(''/app'', [''app'']),
            (''/app/app'', [''migrations'']),
            (''/app/app/migrations'', [''20240101000000_a.py''])]
       [(''/app/app/migrations/20240101000000_a.py'', unit_module (Some []) ''a'')]"

text \<open>
  A root \<open>/a\<close> with a unit of its own, a \<open>migrations\<close> folder and a module, itself
  named \<open>a\<close>; the folder and the module each hold a unit in a file of the same
  name, and the unit of the root declares both as dependencies.
\<close>

definition fs_shadow :: "string list filesystem" where
  "fs_shadow =
     mk_fs [(''/a'', [''20240102000000_u.py'', ''migrations'', ''a'']),
            (''/a/migrations'', [''20240101000000_x.py'']),
            (''/a/a'', [''migrations'']),
            (''/a/a/migrations'', [''20240101000000_x.py''])]
       [(''/a/20240102000000_u.py'',
           unit_module (Some [''migrations/20240101000000_x'', ''a/migrations/20240101000000_x'']) ''u''),
        (''/a/migrations/20240101000000_x.py'', unit_module None ''e''),
        (''/a/a/migrations/20240101000000_x.py'', unit_module None ''d'')]"

definition fresh :: "storage \<Rightarrow> string \<Rightarrow> string list state" where
  "fresh engine dir = \<lparr>storage_engine = engine, directory = dir, world = [], trace = []\<rparr>"

definition live :: config where
  "live = \<lparr>dry_run = False, migrate_dependencies = True\<rparr>"


definition dry :: config where
  "dry = \<lparr>dry_run = True, migrate_dependencies = True\<rparr>"

section \<open>Frame lemmas\<close>

lemma state_of_simps [simp]: "state_of (Return v s) = s" "state_of (Raise e s) = s"
  by (simp_all add: state_of_def)

lemma log_event_simps [simp]:
  "trace (log_event ev s) = trace s @ [ev]"
  "storage_engine (log_event ev s) = storage_engine s"
  "world (log_event ev s) = world s"
  "directory (log_event ev s) = directory s"
  by (simp_all add: log_event_def)

lemma up_unfold:
  "up depth cfg fs script s =
     (if has_run (storage_engine s) (filename script) then Return () s
      else case dependency_phase depth cfg fs script s of
             Raise e s' \<Rightarrow> Raise e s'
           | Return Returned s' \<Rightarrow> Return () s'
           | Return Proceed s' \<Rightarrow> run_up cfg script s')"
  by (simp add: dependency_phase_def)

text \<open>
  Whatever relates a state to itself, composes, and holds across a logged error
  and across the last block of \<open>up\<close>, holds across \<open>up\<close>.
\<close>

lemma up_steps_aux:
  assumes refl: "\<And>s. R s s"
    and trans: "\<And>s s' s''. R s s' \<Longrightarrow> R s' s'' \<Longrightarrow> R s s''"
    and logs: "\<And>msg s. R s (log_event (LogError msg) s)"
  shows "(\<forall>script s. R s (state_of (run_up cfg script s))) \<Longrightarrow>
           R s (state_of (up depth cfg fs script s))"
    and "(\<forall>script s. R s (state_of (run_up cfg script s))) \<Longrightarrow>
           R s (state_of (up_dependencies depth cfg fs script deps s))"
proof (induction depth cfg fs script s and depth cfg fs script deps s
    rule: up_up_dependencies.induct)
  case (1 depth cfg fs script s)
  note body = "1.prems"
  show ?case
  proof (cases "has_run (storage_engine s) (filename script)")
    case True
    then show ?thesis using refl by simp
  next
    case False
    show ?thesis
    proof (cases "dependencies script")
      case None
      with False show ?thesis using body by simp
    next
      case (Some deps)
      have ih: "R s (state_of (up_dependencies depth cfg fs script deps s))"
        using "1.IH" False Some body by blast
      show ?thesis
      proof (cases "up_dependencies depth cfg fs script deps s")
        case (Return fl s')
        with ih have "R s s'" by simp
        moreover have "R s' (state_of (run_up cfg script s'))" using body by blast
        ultimately show ?thesis using False Some Return
          by (cases fl) (auto intro: trans)
      next
        case (Raise e s')
        with ih False Some show ?thesis by simp
      qed
    qed
  qed
next
  case (2 depth cfg fs script s)
  show ?case using refl by simp
next
  case (3 depth cfg fs script dependency rest s)
  note body = "3.prems"
  let ?p = "resolve_dependency_path (directory s) dependency"
  show ?case
  proof (cases "load_script fs (directory s) ?p")
    case (Inl e)
    then show ?thesis using refl by simp
  next
    case (Inr dep)
    show ?thesis
    proof (cases "has_run (storage_engine s) (dependency_path dep)")
      case True
      with Inr "3.IH"(3) body show ?thesis by simp
    next
      case False
      show ?thesis
      proof (cases "migrate_dependencies cfg")
        case False
        with Inr \<open>\<not> has_run (storage_engine s) (dependency_path dep)\<close> show ?thesis
          using logs by simp
      next
        case True
        show ?thesis
        proof (cases depth)
          case 0
          with Inr False True show ?thesis using refl by simp
        next
          case (Suc d)
          have ih1: "R s (state_of (up d cfg fs dep s))"
            using "3.IH"(1) Inr False True Suc body by blast
          show ?thesis
          proof (cases "up d cfg fs dep s")
            case (Return v s')
            have "R s' (state_of (up_dependencies depth cfg fs script rest s'))"
              using "3.IH"(2) Inr False True Suc Return body by blast
            moreover from ih1 Return have "R s s'" by simp
            ultimately show ?thesis using Inr False True Suc Return
              by (auto intro: trans)
          next
            case (Raise e s')
            with ih1 Inr False True Suc show ?thesis by simp
          qed
        qed
      qed
    qed
  qed
qed

lemma up_steps:
  assumes "\<And>s. R s s"
    and "\<And>s s' s''. R s s' \<Longrightarrow> R s' s'' \<Longrightarrow> R s s''"
    and "\<And>msg s. R s (log_event (LogError msg) s)"
    and "\<And>script s. R s (state_of (run_up cfg script s))"
  shows "R s (state_of (up depth cfg fs script s))"
  using up_steps_aux(1) [of R cfg s depth fs script] assms by blast

lemma only_logs_refl: "only_logs s s"
  unfolding only_logs_def by (rule exI [of _ "[]"]) simp

lemma only_logs_trans: "only_logs s s' \<Longrightarrow> only_logs s' s'' \<Longrightarrow> only_logs s s''"
  unfolding only_logs_def
proof -
  assume "\<exists>log. list_all is_log log \<and> s' = s\<lparr>trace := trace s @ log\<rparr>"
    and "\<exists>log. list_all is_log log \<and> s'' = s'\<lparr>trace := trace s' @ log\<rparr>"
  then obtain l1 l2 where l1: "list_all is_log l1" "s' = s\<lparr>trace := trace s @ l1\<rparr>"
    and l2: "list_all is_log l2" "s'' = s'\<lparr>trace := trace s' @ l2\<rparr>" by blast
  have "list_all is_log (l1 @ l2)" using l1(1) l2(1) by simp
  moreover have "s'' = s\<lparr>trace := trace s @ (l1 @ l2)\<rparr>" using l1(2) l2(2) by simp
  ultimately show "\<exists>log. list_all is_log log \<and> s'' = s\<lparr>trace := trace s @ log\<rparr>" by blast
qed

lemma only_logs_log: "only_logs s (log_event (LogError msg) s)"
  unfolding only_logs_def by (rule exI [of _ "[LogError msg]"]) (simp add: log_event_def)

section \<open>The example units, loaded\<close>

lemma load_4004: "load_script (fs_flat d4 d6) ''/m'' ''/m/20240410094004_migration.py'' = Inr (unit_4004 d4)"
  by (simp add: load_script_def fs_flat_def mk_fs_def unit_module_def unit_4004_def relpath_def
      abspath_def normpath_def str_strip_def Let_def)

lemma load_4006: "load_script (fs_flat d4 d6) ''/m'' ''/m/20240410094006_migration.py'' = Inr (unit_4006 d6)"
  by (simp add: load_script_def fs_flat_def mk_fs_def unit_module_def unit_4006_def relpath_def
      abspath_def normpath_def str_strip_def Let_def)

lemma load_4008: "load_script (fs_flat d4 d6) ''/m'' ''/m/20240410094008_migration.py'' = Inr unit_4008"
  by (simp add: load_script_def fs_flat_def mk_fs_def unit_module_def unit_4008_def relpath_def
      abspath_def normpath_def str_strip_def Let_def)

lemma resolve_flat [simp]:
  "resolve_dependency_path ''/m'' ''20240410094004_migration'' = ''/m/20240410094004_migration.py''"
  "resolve_dependency_path ''/m'' ''20240410094006_migration'' = ''/m/20240410094006_migration.py''"
  "resolve_dependency_path ''/m'' ''20240410094008_migration'' = ''/m/20240410094008_migration.py''"
  by (simp_all add: resolve_dependency_path_def path_join_def endswith_def suffix_to_prefix)


section \<open>Dry runs\<close>

lemma up_dry_run_logs:
  assumes "dry_run cfg"
  shows "only_logs s (state_of (up depth cfg fs script s))"
proof (rule up_steps)
  show "\<And>script s. only_logs s (state_of (run_up cfg script s))"
    using assms by (simp add: run_up_def only_logs_refl)
qed (auto intro: only_logs_refl only_logs_trans only_logs_log)

text \<open>
  C5: in a dry run, \<open>up\<close> leaves the storage, the world and the directory as they
  were and adds nothing to the trace but logged errors: no \<open>store\<close>, no
  \<open>delete\<close>, no body, whatever the dependencies are; \<open>down\<close> changes nothing at
  all.
\<close>

theorem dry_run_purity:
  "dry_run cfg \<Longrightarrow>
     (\<exists>log. list_all is_log log \<and>
        state_of (up depth cfg fs script s) = s\<lparr>trace := trace s @ log\<rparr>) \<and>
     down cfg script s = Return () s"
proof
  assume dry: "dry_run cfg"
  have "only_logs s (state_of (up depth cfg fs script s))"
    using dry by (rule up_dry_run_logs)
  then show "\<exists>log. list_all is_log log \<and>
        state_of (up depth cfg fs script s) = s\<lparr>trace := trace s @ log\<rparr>"
    by (simp only: only_logs_def)
  show "down cfg script s = Return () s"
    using dry by (simp add: down_def)
qed

theorem dry_run_purity_witness:
  "dry_run dry \<and>
   (\<exists>log. list_all is_log log \<and>
      state_of (up 5 dry (fs_flat (Some []) (Some [''20240410094004_migration'']))
                  (unit_4006 (Some [''20240410094004_migration''])) (fresh (DynamoDB []) ''/m''))
        = (fresh (DynamoDB []) ''/m'')\<lparr>trace := trace (fresh (DynamoDB []) ''/m'') @ log\<rparr>) \<and>
   down dry (unit_4006 (Some [''20240410094004_migration''])) (fresh (DynamoDB []) ''/m'')
     = Return () (fresh (DynamoDB []) ''/m'')"
  using dry_run_purity [of dry 5 "fs_flat (Some []) (Some [''20240410094004_migration''])"
      "unit_4006 (Some [''20240410094004_migration''])" "fresh (DynamoDB []) ''/m''"]
  by (simp add: dry_def)

section \<open>A body that raises\<close>

text \<open>
  C6: when \<open>up\<close> reaches the unit's body (the unit is not recorded, the
  dependency loop has run to its end in state \<open>s1\<close>) and the body raises \<open>e\<close>,
  \<open>up\<close> raises that same \<open>e\<close>, the storage is the one the body was called in, and
  the trace ends with the body: no \<open>store\<close> follows. When \<open>down\<close> reaches the body
  and it raises, \<open>down\<close> raises the same error, the storage is unchanged and no
  \<open>delete\<close> follows.
\<close>

theorem body_failure_keeps_record:
  "\<not> dry_run cfg \<Longrightarrow>
     (\<not> has_run (storage_engine s) (filename script) \<longrightarrow>
        dependency_phase depth cfg fs script s = Return Proceed s1 \<longrightarrow>
        script_up script (world s1) = (Some e, w) \<longrightarrow>
        (\<exists>s'. up depth cfg fs script s = Raise e s' \<and>
              storage_engine s' = storage_engine s1 \<and>
              trace s' = trace s1 @ [RunUp (file_path script)])) \<and>
     (has_run (storage_engine t) (filename script) \<longrightarrow>
        script_down script (world t) = (Some e', w') \<longrightarrow>
        (\<exists>t'. down cfg script t = Raise e' t' \<and>
              storage_engine t' = storage_engine t \<and>
              trace t' = trace t @ [RunDown (file_path script)]))"
  by (simp add: up_unfold run_up_def down_def del: up.simps)

theorem body_failure_keeps_record_witness:
  "\<not> dry_run live \<and>
   \<not> has_run (storage_engine (fresh (DynamoDB []) ''/m'')) (filename unit_failing) \<and>
   dependency_phase 5 live (fs_flat None None) unit_failing (fresh (DynamoDB []) ''/m'')
     = Return Proceed (fresh (DynamoDB []) ''/m'') \<and>
   script_up unit_failing (world (fresh (DynamoDB []) ''/m'')) = (Some (Exception ''up failed''), []) \<and>
   (\<exists>s'. up 5 live (fs_flat None None) unit_failing (fresh (DynamoDB []) ''/m'')
            = Raise (Exception ''up failed'') s' \<and>
         storage_engine s' = DynamoDB [] \<and>
         trace s' = [RunUp ''/m/20240410094010_migration.py'']) \<and>
   has_run (storage_engine (fresh (DynamoDB [''20240410094010_migration'']) ''/m''))
     (filename unit_failing) \<and>
   script_down unit_failing (world (fresh (DynamoDB [''20240410094010_migration'']) ''/m''))
     = (Some (Exception ''down failed''), []) \<and>
   (\<exists>t'. down live unit_failing (fresh (DynamoDB [''20240410094010_migration'']) ''/m'')
            = Raise (Exception ''down failed'') t' \<and>
         storage_engine t' = DynamoDB [''20240410094010_migration''] \<and>
         trace t' = [RunDown ''/m/20240410094010_migration.py''])"
  using body_failure_keeps_record [of live "fresh (DynamoDB []) ''/m''" unit_failing 5
      "fs_flat None None" "fresh (DynamoDB []) ''/m''" "Exception ''up failed''" "[]"
      "fresh (DynamoDB [''20240410094010_migration'']) ''/m''" "Exception ''down failed''" "[]"]
  by (simp add: live_def fresh_def unit_failing_def fails_def dependency_phase_def)

section \<open>A blocked dependency\<close>




section \<open>Names, paths and timestamps\<close>

lemma str_split_not_Nil [simp]: "str_split sep s \<noteq> []"
  by (induction s) (auto split: list.splits)

lemma str_split_no_sep: "sep \<notin> set s \<Longrightarrow> str_split sep s = [s]"
  by (induction s) auto

lemma str_split_append_sep:
  "sep \<notin> set a \<Longrightarrow> str_split sep (a @ sep # x) = a # str_split sep x"
  by (induction a) auto

lemma str_split_append_shape:
  "\<exists>w ws. str_split sep (a @ sep # x) = w # ws \<and> ws \<noteq> [] \<and>
          last ws = last (str_split sep x)"
proof (induction a)
  case Nil
  show ?case by simp
next
  case (Cons c a)
  then obtain w ws where "str_split sep (a @ sep # x) = w # ws" "ws \<noteq> []"
    "last ws = last (str_split sep x)" by blast
  then show ?case by (cases "c = sep") auto
qed

lemma last_str_split_append: "last (str_split sep (a @ sep # x)) = last (str_split sep x)"
  using str_split_append_shape [of sep a x] by auto

lemma basename_append_slash: "basename (a @ CHR ''/'' # b) = basename b"
  by (simp add: basename_def last_str_split_append)

lemma basename_no_slash: "CHR ''/'' \<notin> set n \<Longrightarrow> basename n = n"
  by (simp add: basename_def str_split_no_sep)

lemma basename_path_join: "basename (path_join a b) = basename b"
proof (cases "prefix ''/'' b \<or> a = []")
  case True
  then show ?thesis by (auto simp: path_join_def)
next
  case False
  show ?thesis
  proof (cases "endswith a ''/''")
    case True
    then obtain a' where a: "a = a' @ ''/''" by (auto simp: endswith_def suffix_def)
    have "path_join a b = a' @ CHR ''/'' # b"
      using False True by (simp add: path_join_def a)
    then show ?thesis by (simp add: basename_append_slash)
  next
    case notslash: False
    with False have "path_join a b = a @ CHR ''/'' # b" by (simp add: path_join_def)
    then show ?thesis by (simp add: basename_append_slash)
  qed
qed

lemma path_join_relative:
  "CHR ''/'' \<notin> set n \<Longrightarrow>
   path_join d n = (if d = [] \<or> endswith d ''/'' then d else d @ ''/'') @ n"
  by (cases n) (auto simp: path_join_def)


lemma str_replace_skip:
  "CHR ''.'' \<notin> set a \<Longrightarrow> str_replace ''.py'' [] (a @ x) = a @ str_replace ''.py'' [] x"
proof (induction a)
  case Nil
  show ?case by simp
next
  case (Cons c a)
  then have "c \<noteq> CHR ''.''" by auto
  then have "str_replace ''.py'' [] (c # (a @ x)) = c # str_replace ''.py'' [] (a @ x)"
    by (subst str_replace.simps) simp
  with Cons show ?case by simp
qed


lemma is_migration_file_shape:
  assumes "is_migration_file b"
  shows "\<exists>rest. b = take 14 b @ CHR ''_'' # rest \<and> length (take 14 b) = 14 \<and>
           list_all is_digit (take 14 b)"
proof -
  from assms have len: "length (take 14 b) = 14" and dig: "list_all is_digit (take 14 b)"
    and us: "take 1 (drop 14 b) = ''_''"
    by (simp_all add: is_migration_file_def Let_def)
  from us obtain rest where "drop 14 b = CHR ''_'' # rest"
    by (cases "drop 14 b") simp_all
  then have "b = take 14 b @ CHR ''_'' # rest"
    using append_take_drop_id [of 14 b] by simp
  with len dig show ?thesis by blast
qed

lemma digits_no_dot: "list_all is_digit ds \<Longrightarrow> CHR ''.'' \<notin> set ds"
  by (induction ds) (auto simp: is_digit_def)

lemma digits_no_underscore: "list_all is_digit ds \<Longrightarrow> CHR ''_'' \<notin> set ds"
  by (induction ds) (auto simp: is_digit_def)

lemma migration_timestamp_is_prefix:
  assumes "is_migration_file (basename f)"
  shows "migration_timestamp f = timestamp14 f"
proof -
  from is_migration_file_shape [OF assms] obtain rest where
    b: "basename f = take 14 (basename f) @ CHR ''_'' # rest"
    and dig: "list_all is_digit (take 14 (basename f))" by blast
  define t where "t = take 14 (basename f)"
  have b': "basename f = t @ CHR ''_'' # rest" using b by (simp add: t_def)
  have dig': "list_all is_digit t" using dig by (simp add: t_def)
  have "str_replace ''.py'' [] (t @ CHR ''_'' # rest) = t @ str_replace ''.py'' [] (CHR ''_'' # rest)"
    by (rule str_replace_skip [OF digits_no_dot [OF dig']])
  also have "str_replace ''.py'' [] (CHR ''_'' # rest) = CHR ''_'' # str_replace ''.py'' [] rest"
    by (subst str_replace.simps) simp
  finally have "migration_name f = t @ CHR ''_'' # str_replace ''.py'' [] rest"
    using b' by (simp add: migration_name_def)
  then have "str_split CHR ''_'' (migration_name f) = t # str_split CHR ''_'' (str_replace ''.py'' [] rest)"
    using str_split_append_sep [OF digits_no_underscore [OF dig']] by simp
  then show ?thesis
    by (simp add: migration_timestamp_def timestamp14_def t_def)
qed


section \<open>Discovery\<close>

lemma check_duplicates_None_iff:
  "check_duplicates names tss files = None \<longleftrightarrow>
     distinct (map migration_name files) \<and> distinct (map migration_timestamp files) \<and>
     migration_name ` set files \<inter> dom names = {} \<and>
     migration_timestamp ` set files \<inter> dom tss = {}"
proof (induction files arbitrary: names tss)
  case Nil
  show ?case by simp
next
  case (Cons f files)
  show ?case
  proof (cases "migration_name f \<in> dom names \<or> migration_timestamp f \<in> dom tss")
    case True
    then show ?thesis by auto
  next
    case False
    then have "check_duplicates names tss (f # files) =
        check_duplicates (names(migration_name f \<mapsto> True)) (tss(migration_timestamp f \<mapsto> True)) files"
      by simp
    also have "\<dots> = None \<longleftrightarrow>
       distinct (map migration_name files) \<and> distinct (map migration_timestamp files) \<and>
       migration_name ` set files \<inter> insert (migration_name f) (dom names) = {} \<and>
       migration_timestamp ` set files \<inter> insert (migration_timestamp f) (dom tss) = {}"
      by (simp only: Cons.IH dom_fun_upd option.simps if_False)
    finally show ?thesis using False by auto
  qed
qed

lemma check_duplicates_error:
  "check_duplicates names tss files = Some e \<Longrightarrow> \<exists>msg. e = ValueError msg"
  by (induction files arbitrary: names tss) (auto split: if_splits)

lemma list_migrations_files:
  assumes "names_ok fs" and "list_migrations fs d = Inr found"
  shows "\<forall>f \<in> set found. is_migration_file (basename f)"
proof -
  from assms(2) obtain names where l: "listdir fs d = Inr names"
    and f: "found = map (path_join d) (filter is_migration_file names)"
    by (auto simp: list_migrations_def split: sum.splits)
  have "\<forall>n \<in> set names. CHR ''/'' \<notin> set n" using assms(1) l by (auto simp: names_ok_def)
  then show ?thesis using f by (auto simp: basename_path_join basename_no_slash)
qed

lemma collect_module_files_files:
  assumes "names_ok fs"
  shows "collect_module_files fs acc modules = Inr found \<Longrightarrow>
         \<forall>f \<in> set acc. is_migration_file (basename f) \<Longrightarrow>
         \<forall>f \<in> set found. is_migration_file (basename f)"
proof (induction modules arbitrary: acc)
  case Nil
  then show ?case by simp
next
  case (Cons m modules)
  from Cons.prems(1) obtain fm where
    fm: "list_migrations fs (path_join m ''migrations'') = Inr fm"
    and rest: "collect_module_files fs (acc @ fm) modules = Inr found"
    by (auto split: sum.splits)
  have "\<forall>f \<in> set (acc @ fm). is_migration_file (basename f)"
    using Cons.prems(2) list_migrations_files [OF assms fm] by auto
  from Cons.IH [OF rest this] show ?case .
qed

lemma scan_frame:
  "scan_migration_files fs s = r \<Longrightarrow>
     trace (state_of r) = trace s \<and> world (state_of r) = world s \<and>
     storage_engine (state_of r) = storage_engine s"
  by (auto simp: scan_migration_files_def Let_def split: sum.splits if_splits)

lemma scan_files:
  assumes "names_ok fs" and "scan_migration_files fs s = Return files s1"
  shows "\<forall>f \<in> set files. is_migration_file (basename f)"
proof (cases "list_migrations fs (directory s)")
  case (Inl e)
  with assms(2) show ?thesis by (simp add: scan_migration_files_def)
next
  case (Inr flat)
  show ?thesis
  proof (cases "flat \<noteq> []")
    case True
    with Inr assms(2) have "files = flat" by (simp add: scan_migration_files_def)
    with list_migrations_files [OF assms(1) Inr] show ?thesis by simp
  next
    case empty: False
    show ?thesis
    proof (cases "path_exists fs (path_join (directory s) ''migrations'')")
      case True
      with Inr empty assms(2)
      have "list_migrations fs (path_join (directory s) ''migrations'') = Inr files"
        by (auto simp: scan_migration_files_def Let_def split: sum.splits)
      from list_migrations_files [OF assms(1) this] show ?thesis .
    next
      case False
      with Inr empty assms(2) obtain modules where
        "collect_module_files fs [] modules = Inr files"
        by (auto simp: scan_migration_files_def Let_def split: sum.splits)
      from collect_module_files_files [OF assms(1) this] show ?thesis by simp
    qed
  qed
qed

text \<open>
  C7: when the files that the scan of a root collects (in any of the three layouts,
  so also across module folders) hold two with the same name (base name without
  \<^verbatim>\<open>.py\<close>) or two with the same leading fourteen characters, discovery raises a
  \<open>ValueError\<close>; \<open>migrate\<close> and \<open>rollback\<close> raise it too, in the state the scan left:
  the trace, the world and the storage are those of the start, so no body has run.
\<close>

theorem duplicates_fail_discovery:
  assumes "names_ok fs"
    and "scan_migration_files fs s = Return files s1"
    and "\<not> distinct (map migration_name files) \<or> \<not> distinct (map timestamp14 files)"
  shows "\<exists>msg. find_all_migration_files fs s = Raise (ValueError msg) s1 \<and>
           migrate depth cfg fs s = Raise (ValueError msg) s1 \<and>
           rollback cfg fs n s = Raise (ValueError msg) s1 \<and>
           trace s1 = trace s \<and> world s1 = world s \<and> storage_engine s1 = storage_engine s"
proof -
  have eq: "map migration_timestamp files = map timestamp14 files"
    using scan_files [OF assms(1,2)] by (simp add: migration_timestamp_is_prefix)
  have "\<not> distinct (map migration_name files) \<or> \<not> distinct (map migration_timestamp files)"
    using assms(3) by (simp only: eq)
  then have "check_duplicates Map.empty Map.empty files \<noteq> None"
    by (simp only: check_duplicates_None_iff) blast
  then obtain e where e: "check_duplicates Map.empty Map.empty files = Some e" by blast
  then obtain msg where "e = ValueError msg" using check_duplicates_error by blast
  with e assms(2) have "find_all_migration_files fs s = Raise (ValueError msg) s1"
    by (simp add: find_all_migration_files_def)
  moreover from this have "migrate depth cfg fs s = Raise (ValueError msg) s1"
    by (simp add: migrate_def)
  moreover from calculation(1) have "rollback cfg fs n s = Raise (ValueError msg) s1"
    by (simp add: rollback_def)
  moreover have "trace s1 = trace s \<and> world s1 = world s \<and> storage_engine s1 = storage_engine s"
    using scan_frame [OF assms(2)] by simp
  ultimately show ?thesis by blast
qed


lemma names_ok_mk_fs:
  "list_all (\<lambda>(d, names). list_all (\<lambda>n. CHR ''/'' \<notin> set n) names) dirs \<Longrightarrow> names_ok (mk_fs dirs files)"
  unfolding names_ok_def mk_fs_def
  by (auto simp: list_all_iff split: option.splits dest!: map_of_SomeD)

theorem duplicates_fail_discovery_witness:
  "names_ok fs_duplicate \<and>
   scan_migration_files fs_duplicate (fresh (DynamoDB []) ''/r'')
     = Return [''/r/a/migrations/20240101000000_x.py'', ''/r/b/migrations/20240101000000_y.py'']
         (fresh (DynamoDB []) ''/r'') \<and>
   \<not> distinct (map timestamp14
         [''/r/a/migrations/20240101000000_x.py'', ''/r/b/migrations/20240101000000_y.py'']) \<and>
   (\<exists>msg. find_all_migration_files fs_duplicate (fresh (DynamoDB []) ''/r'')
             = Raise (ValueError msg) (fresh (DynamoDB []) ''/r'') \<and>
          migrate 5 live fs_duplicate (fresh (DynamoDB []) ''/r'')
             = Raise (ValueError msg) (fresh (DynamoDB []) ''/r'') \<and>
          rollback live fs_duplicate 1 (fresh (DynamoDB []) ''/r'')
             = Raise (ValueError msg) (fresh (DynamoDB []) ''/r''))"
proof -
  let ?s = "fresh (DynamoDB []) ''/r''"
  let ?files = "[''/r/a/migrations/20240101000000_x.py'', ''/r/b/migrations/20240101000000_y.py'']"
  have h1: "names_ok fs_duplicate"
    unfolding fs_duplicate_def by (rule names_ok_mk_fs) simp
  have m: "is_migration_file ''20240101000000_x.py''" "is_migration_file ''20240101000000_y.py''"
    "\<not> is_migration_file ''a''" "\<not> is_migration_file ''b''"
    by code_simp+
  have h2: "scan_migration_files fs_duplicate ?s = Return ?files ?s"
    by (simp add: scan_migration_files_def list_migrations_def find_modules_with_migrations_def
        fs_duplicate_def mk_fs_def fresh_def m path_join_def endswith_def suffix_to_prefix)
  have h3: "\<not> distinct (map timestamp14 ?files)"
    by code_simp
  from duplicates_fail_discovery [OF h1 h2 disjI2 [OF h3], of 5 live 1] h1 h2 h3
  show ?thesis by blast
qed

section \<open>Rollback\<close>

text \<open>
  For \<open>n\<close> of at least one, \<open>get_last_n\<close> returns the \<open>n\<close> smallest identifiers,
  the largest of them first: at most \<open>n\<close>, all of the table, in descending order.
\<close>

lemma get_last_n_oldest:
  "1 \<le> n \<Longrightarrow> get_last_n (DynamoDB items) n = Inr (rev (take (nat n) (sort items)))"
proof -
  assume n: "1 \<le> n"
  have "nat (max (int (length items) + - n) 0) = length items - nat n"
    using n by (simp add: max_def nat_diff_distrib')
  then have "slice_from (- n) (rev (sort items)) = drop (length items - nat n) (rev (sort items))"
    using n by (simp add: slice_from_def Let_def)
  then show ?thesis by (simp add: rev_take)
qed

lemma get_last_n_bound:
  assumes "1 \<le> n" and "get_last_n (DynamoDB items) n = Inr ids"
  shows "length ids \<le> nat n \<and> set ids \<subseteq> set items \<and> sorted (rev ids)"
proof -
  from assms have ids: "ids = rev (take (nat n) (sort items))"
    using get_last_n_oldest [OF assms(1), of items] by (simp del: get_last_n.simps)
  have "set (take (nat n) (sort items)) \<subseteq> set (sort items)" by (rule set_take_subset)
  moreover have "sorted (take (nat n) (sort items))" by (simp add: sorted_wrt_take)
  ultimately show ?thesis using ids by simp
qed

text \<open>
  C1: with three units applied, \<open>get_last_n\<close> for \<open>n = 1\<close> returns the oldest
  identifier, not the most recent one: it sorts in descending order and then
  keeps the last \<open>n\<close> of the list. So \<open>rollback(1)\<close> runs the \<open>down\<close> body of the
  oldest unit, and the most recent unit stays applied.
\<close>

theorem rollback_one_reverses_oldest:
  "get_last_n (DynamoDB [''20240410094004_migration'', ''20240410094006_migration'',
       ''20240410094008_migration'']) 1 = Inr [''20240410094004_migration''] \<and>
   run_downs (trace (state_of (rollback live (fs_flat None None) 1
       (fresh (DynamoDB [''20240410094004_migration'', ''20240410094006_migration'',
          ''20240410094008_migration'']) ''/m''))))
     = [''/m/20240410094004_migration.py''] \<and>
   has_run (storage_engine (state_of (rollback live (fs_flat None None) 1
       (fresh (DynamoDB [''20240410094004_migration'', ''20240410094006_migration'',
          ''20240410094008_migration'']) ''/m'')))) ''20240410094008_migration''"
  by code_simp

section \<open>Running the migration twice\<close>

text \<open>A unit whose \<open>filename\<close> is recorded is left alone.\<close>

lemma up_recorded_returns:
  "has_run (storage_engine s) (filename script) \<Longrightarrow> up depth cfg fs script s = Return () s"
  by simp

text \<open>
  C4: \<open>up\<close> checks \<open>has_run\<close> on the unit's \<open>filename\<close> and stores its
  \<open>dependency_path\<close>. In the root \<open>/app\<close> with the module \<open>app\<close> the two differ
  (\<open>migrations/20240101000000_a\<close> and \<open>app/migrations/20240101000000_a\<close>), so a
  second \<open>migrate\<close> on the state the first one left runs the body again.
\<close>

theorem second_migrate_reruns_body:
  "run_ups (trace (state_of (migrate 5 live fs_app (fresh (DynamoDB []) ''/app''))))
     = [''/app/app/migrations/20240101000000_a.py''] \<and>
   run_ups (new_events (state_of (migrate 5 live fs_app (fresh (DynamoDB []) ''/app'')))
      (migrate 5 live fs_app (state_of (migrate 5 live fs_app (fresh (DynamoDB []) ''/app'')))))
     = [''/app/app/migrations/20240101000000_a.py'']"
  by code_simp

section \<open>The count on the command line\<close>

text \<open>The command \<open>rollback\<close> is validated.\<close>

lemma rollback_command_validates:
  "arg_engine a = ''dynamodb'' \<or> arg_engine a = ''memory'' \<Longrightarrow> arg_command a = CmdRollback \<Longrightarrow>
     arg_n a < 1 \<Longrightarrow> main working_directory a = SysExit 1 ''Invalid number of migrations to rollback''"
  by (auto simp: main_def)

text \<open>
  C9: the command \<open>down\<close> with \<open>n = 0\<close> is not rejected: \<open>main\<close> invokes
  \<open>rollback(0)\<close>. The command \<open>rollback\<close> with the same count exits with status 1.
\<close>

theorem down_command_skips_validation:
  "main ''/'' \<lparr>arg_engine = ''dynamodb'', arg_directory = ''/m'', arg_file = None,
       arg_dry_run = False, arg_migrate_dependencies = False, arg_command = CmdDown, arg_n = 0\<rparr>
     = Invoke UseDynamoDB ''/m'' \<lparr>dry_run = False, migrate_dependencies = False\<rparr> (CallRollback 0) \<and>
   main ''/'' \<lparr>arg_engine = ''dynamodb'', arg_directory = ''/m'', arg_file = None,
       arg_dry_run = False, arg_migrate_dependencies = False, arg_command = CmdRollback, arg_n = 0\<rparr>
     = SysExit 1 ''Invalid number of migrations to rollback''"
  by code_simp

section \<open>The order of a migration\<close>

lemma timestamp14_modules:
  "timestamp14 ''/r/b/migrations/20240101000000_y.py'' = ''20240101000000''"
  "timestamp14 ''/r/a/migrations/20240102000000_x.py'' = ''20240102000000''"
  by code_simp+

lemma decimal_value_modules:
  "decimal_value ''20240101000000'' = 20240101000000"
  "decimal_value ''20240102000000'' = 20240102000000"
  by (simp_all add: decimal_value_def digit_value_def)

text \<open>
  C2, as stated, fails in the module layout: the paths are sorted whole, so the
  module folder decides before the timestamp does. Module \<open>a\<close> holds the later
  unit and runs first.
\<close>

theorem module_layout_order_counterexample:
  "run_ups (new_events (fresh (DynamoDB []) ''/r'') (migrate 5 live fs_modules (fresh (DynamoDB []) ''/r'')))
     = [''/r/a/migrations/20240102000000_x.py'', ''/r/b/migrations/20240101000000_y.py''] \<and>
   decimal_value (timestamp14 ''/r/b/migrations/20240101000000_y.py'')
     < decimal_value (timestamp14 ''/r/a/migrations/20240102000000_x.py'')"
proof
  show "run_ups (new_events (fresh (DynamoDB []) ''/r'') (migrate 5 live fs_modules (fresh (DynamoDB []) ''/r'')))
     = [''/r/a/migrations/20240102000000_x.py'', ''/r/b/migrations/20240101000000_y.py'']"
    by code_simp
  show "decimal_value (timestamp14 ''/r/b/migrations/20240101000000_y.py'')
     < decimal_value (timestamp14 ''/r/a/migrations/20240102000000_x.py'')"
    by (simp add: timestamp14_modules decimal_value_modules)
qed

lemma less_append_same: "(p @ a < p @ b) = (a < (b :: string))"
  by (induction p) simp_all

lemma less_decided_by_prefix:
  "length a = length b \<Longrightarrow> a \<noteq> b \<Longrightarrow> (a @ x < b @ y) = (a < (b :: string))"
proof (induction a arbitrary: b)
  case Nil
  then show ?case by simp
next
  case (Cons c a)
  then obtain d b' where b: "b = d # b'" by (cases b) auto
  with Cons.prems have len: "length a = length b'" by simp
  show ?case
  proof (cases "c = d")
    case True
    with Cons.prems b have "a \<noteq> b'" by simp
    from Cons.IH [OF len this] True b show ?thesis by simp
  next
    case False
    with b show ?thesis by simp
  qed
qed

lemma foldl_decimal:
  "foldl (\<lambda>acc c. 10 * acc + digit_value c) acc ds =
     acc * 10 ^ length ds + foldl (\<lambda>acc c. 10 * acc + digit_value c) 0 ds"
proof (induction ds arbitrary: acc)
  case Nil
  show ?case by simp
next
  case (Cons d ds)
  show ?case
    using Cons.IH [of "10 * acc + digit_value d"] Cons.IH [of "digit_value d"]
    by (simp add: algebra_simps)
qed

lemma decimal_value_Cons:
  "decimal_value (d # ds) = digit_value d * 10 ^ length ds + decimal_value ds"
  using foldl_decimal [of "digit_value d" ds] by (simp add: decimal_value_def)

lemma digit_value_bound: "is_digit c \<Longrightarrow> digit_value c < 10"
  by (auto simp: is_digit_def digit_value_def)

lemma decimal_value_bound: "list_all is_digit ds \<Longrightarrow> decimal_value ds < 10 ^ length ds"
proof (induction ds)
  case Nil
  show ?case by (simp add: decimal_value_def)
next
  case (Cons d ds)
  then have "digit_value d \<le> 9" and "decimal_value ds < 10 ^ length ds"
    using digit_value_bound [of d] by auto
  then have "digit_value d * 10 ^ length ds + decimal_value ds < 9 * 10 ^ length ds + 10 ^ length ds"
    by (meson add_le_less_mono mult_le_mono1)
  then show ?case by (simp add: decimal_value_Cons)
qed

lemma digit_less: "is_digit c \<Longrightarrow> is_digit d \<Longrightarrow> c < d \<longleftrightarrow> digit_value c < digit_value d"
  by (auto simp: is_digit_def digit_value_def less_char_def)

lemma digit_value_inj: "is_digit c \<Longrightarrow> is_digit d \<Longrightarrow> digit_value c = digit_value d \<Longrightarrow> c = d"
  by (auto simp: is_digit_def digit_value_def)

lemma digits_less_decimal:
  "length a = length b \<Longrightarrow> list_all is_digit a \<Longrightarrow> list_all is_digit b \<Longrightarrow> a < b \<Longrightarrow>
     decimal_value a < decimal_value b"
proof (induction a arbitrary: b)
  case Nil
  then show ?case by simp
next
  case (Cons c a)
  then obtain d b' where b: "b = d # b'" by (cases b) auto
  with Cons.prems have len: "length a = length b'" and da: "list_all is_digit a"
    and db: "list_all is_digit b'" and dc: "is_digit c" and dd: "is_digit d" by simp_all
  from Cons.prems(4) b have "c < d \<or> c = d \<and> a < b'" by simp
  then show ?case
  proof
    assume "c < d"
    then have "digit_value c + 1 \<le> digit_value d" using digit_less [OF dc dd] by simp
    then have "(digit_value c + 1) * 10 ^ length a \<le> digit_value d * 10 ^ length a"
      by (rule mult_le_mono1)
    moreover have "decimal_value a < 10 ^ length a" by (rule decimal_value_bound [OF da])
    ultimately have "digit_value c * 10 ^ length a + decimal_value a < digit_value d * 10 ^ length a"
      by (simp add: algebra_simps)
    then show ?thesis using b len by (simp add: decimal_value_Cons)
  next
    assume "c = d \<and> a < b'"
    then have "decimal_value a < decimal_value b'" using Cons.IH [OF len da db] by simp
    with \<open>c = d \<and> a < b'\<close> b len show ?thesis by (simp add: decimal_value_Cons)
  qed
qed

lemma subseq_sorted_wrt:
  "subseq xs ys \<Longrightarrow> sorted_wrt P ys \<Longrightarrow> sorted_wrt P xs"
proof (induction rule: list_emb.induct)
  case (list_emb_Nil ys)
  show ?case by simp
next
  case (list_emb_Cons xs ys y)
  then show ?case by simp
next
  case (list_emb_Cons2 x y xs ys)
  then have "set xs \<subseteq> set ys" by (auto dest: list_emb_set)
  with list_emb_Cons2 show ?case by auto
qed

lemma run_ups_append [simp]: "run_ups (a @ b) = run_ups a @ run_ups b"
  by (induction a rule: run_ups.induct) simp_all


lemma load_script_origin:
  assumes "load_script fs dir p = Inr sc"
  shows "file_path sc = p \<and> (\<exists>m. import_module fs p = Inr m \<and> dependencies sc = mod_dependencies m)"
  using assms by (auto simp: load_script_def split: if_splits sum.splits)

lemma up_no_dependencies:
  assumes "dependencies script = None \<or> dependencies script = Some []"
  shows "\<exists>new. trace (state_of (up depth cfg fs script s)) = trace s @ new \<and>
           directory (state_of (up depth cfg fs script s)) = directory s \<and>
           subseq (run_ups new) [file_path script]"
proof -
  have phase: "dependency_phase depth cfg fs script s = Return Proceed s"
    using assms by (auto simp: dependency_phase_def)
  show ?thesis
  proof (cases "has_run (storage_engine s) (filename script) \<or> dry_run cfg")
    case True
    then have "state_of (up depth cfg fs script s) = s"
      by (auto simp: up_unfold phase run_up_def simp del: up.simps)
    then show ?thesis by simp
  next
    case False
    obtain r w where body: "script_up script (world s) = (r, w)" by (cases "script_up script (world s)")
    show ?thesis
    proof (cases r)
      case None
      with False body have
        "state_of (up depth cfg fs script s) =
           do_store (dependency_path script) ((log_event (RunUp (file_path script)) s)\<lparr>world := w\<rparr>)"
        by (simp add: up_unfold phase run_up_def del: up.simps)
      then have "trace (state_of (up depth cfg fs script s)) =
            trace s @ [RunUp (file_path script), Store (dependency_path script)]"
        and "directory (state_of (up depth cfg fs script s)) = directory s"
        by (simp_all add: do_store_def)
      then show ?thesis by simp
    next
      case (Some e)
      with False body have
        "state_of (up depth cfg fs script s) = (log_event (RunUp (file_path script)) s)\<lparr>world := w\<rparr>"
        by (simp add: up_unfold phase run_up_def del: up.simps)
      then have "trace (state_of (up depth cfg fs script s)) = trace s @ [RunUp (file_path script)]"
        and "directory (state_of (up depth cfg fs script s)) = directory s"
        by simp_all
      then show ?thesis by simp
    qed
  qed
qed

lemma migrate_loop_run_ups:
  assumes nodeps: "\<forall>p m. import_module fs p = Inr m \<longrightarrow>
                     mod_dependencies m = None \<or> mod_dependencies m = Some []"
  shows "\<exists>new. trace (state_of (migrate_loop depth cfg fs ps s)) = trace s @ new \<and>
           subseq (run_ups new) (map (path_join (directory s)) ps)"
proof (induction ps arbitrary: s)
  case Nil
  show ?case by simp
next
  case (Cons p ps)
  let ?q = "path_join (directory s) p"
  show ?case
  proof (cases "load_script fs (directory s) ?q")
    case (Inl e)
    then have "state_of (migrate_loop depth cfg fs (p # ps) s) = s"
      by (simp add: migrate_up_def)
    then show ?thesis by simp
  next
    case (Inr sc)
    from load_script_origin [OF Inr] obtain m where
      fp: "file_path sc = ?q" and im: "import_module fs ?q = Inr m"
      and dm: "dependencies sc = mod_dependencies m" by blast
    from nodeps im have "mod_dependencies m = None \<or> mod_dependencies m = Some []" by blast
    with dm have nd: "dependencies sc = None \<or> dependencies sc = Some []" by simp
    from up_no_dependencies [OF nd, of depth cfg fs s] fp obtain n1 where
      t1: "trace (state_of (up depth cfg fs sc s)) = trace s @ n1"
      and d1: "directory (state_of (up depth cfg fs sc s)) = directory s"
      and s1: "subseq (run_ups n1) [?q]" by auto
    show ?thesis
    proof (cases "up depth cfg fs sc s")
      case (Raise e s')
      with Inr have "state_of (migrate_loop depth cfg fs (p # ps) s) = s'"
        by (simp add: migrate_up_def del: up.simps)
      moreover from Raise t1 have "trace s' = trace s @ n1" by simp
      moreover have "subseq (run_ups n1) (map (path_join (directory s)) (p # ps))"
        using list_emb_append_mono [OF s1 list_emb_Nil [of "(=)" "map (path_join (directory s)) ps"]]
        by simp
      ultimately show ?thesis by auto
    next
      case (Return v s')
      with Inr have eq: "migrate_loop depth cfg fs (p # ps) s = migrate_loop depth cfg fs ps s'"
        by (simp add: migrate_up_def del: up.simps)
      from Return t1 d1 have t': "trace s' = trace s @ n1" and d': "directory s' = directory s"
        by simp_all
      from Cons.IH [of s'] obtain n2 where
        t2: "trace (state_of (migrate_loop depth cfg fs ps s')) = trace s' @ n2"
        and s2: "subseq (run_ups n2) (map (path_join (directory s')) ps)" by blast
      have "trace (state_of (migrate_loop depth cfg fs (p # ps) s)) = trace s @ (n1 @ n2)"
        using eq t2 t' by simp
      moreover have "subseq (run_ups (n1 @ n2)) (map (path_join (directory s)) (p # ps))"
        using list_emb_append_mono [OF s1 s2] d' by simp
      ultimately show ?thesis by blast
    qed
  qed
qed


lemma scan_single_directory:
  assumes "scan_migration_files fs s = Return files s1"
    and "list_migrations fs (directory s) \<noteq> Inr [] \<or>
         path_exists fs (path_join (directory s) ''migrations'')"
  shows "\<exists>names. listdir fs (directory s1) = Inr names \<and>
           files = map (path_join (directory s1)) (filter is_migration_file names)"
proof (cases "list_migrations fs (directory s)")
  case (Inl e)
  with assms(1) show ?thesis by (simp add: scan_migration_files_def)
next
  case (Inr flat)
  show ?thesis
  proof (cases "flat \<noteq> []")
    case True
    with Inr assms(1) have "files = flat" "s1 = s" by (simp_all add: scan_migration_files_def)
    with Inr show ?thesis by (auto simp: list_migrations_def split: sum.splits)
  next
    case False
    with Inr assms(2) have ex: "path_exists fs (path_join (directory s) ''migrations'')" by simp
    with Inr False assms(1)
    have "list_migrations fs (path_join (directory s) ''migrations'') = Inr files"
      and "directory s1 = path_join (directory s) ''migrations''"
      by (auto simp: scan_migration_files_def Let_def split: sum.splits)
    then show ?thesis by (auto simp: list_migrations_def split: sum.splits)
  qed
qed

lemma timestamp14_path_join: "timestamp14 (path_join d p) = timestamp14 p"
  by (simp add: timestamp14_def basename_path_join)

lemma same_directory_order:
  assumes n: "is_migration_file n" "CHR ''/'' \<notin> set n"
    and m: "is_migration_file m" "CHR ''/'' \<notin> set m"
    and less: "path_join d n < path_join d m"
    and diff: "timestamp14 (path_join d n) \<noteq> timestamp14 (path_join d m)"
  shows "decimal_value (timestamp14 (path_join d n)) < decimal_value (timestamp14 (path_join d m))"
proof -
  have tn: "timestamp14 (path_join d n) = take 14 n" and tm: "timestamp14 (path_join d m) = take 14 m"
    using n(2) m(2) by (simp_all add: timestamp14_def basename_path_join basename_no_slash)
  from less have "n < m"
    using path_join_relative [OF n(2), of d] path_join_relative [OF m(2), of d]
    by (simp only: less_append_same)
  moreover from is_migration_file_shape [OF n(1)] obtain rn where
    sn: "n = take 14 n @ CHR ''_'' # rn" "length (take 14 n) = 14" "list_all is_digit (take 14 n)"
    by blast
  moreover from is_migration_file_shape [OF m(1)] obtain rm where
    sm: "m = take 14 m @ CHR ''_'' # rm" "length (take 14 m) = 14" "list_all is_digit (take 14 m)"
    by blast
  ultimately have app: "take 14 n @ CHR ''_'' # rn < take 14 m @ CHR ''_'' # rm" by simp
  have len: "length (take 14 n) = length (take 14 m)" using sn(2) sm(2) by simp
  have ne: "take 14 n \<noteq> take 14 m" using diff tn tm by simp
  have "take 14 n < take 14 m"
    using app less_decided_by_prefix [OF len ne, of "CHR ''_'' # rn" "CHR ''_'' # rm"] by blast
  then have "decimal_value (take 14 n) < decimal_value (take 14 m)"
    using digits_less_decimal sn(2,3) sm(2,3) by simp
  then show ?thesis by (simp only: tn tm)
qed

lemma has_run_store: "has_run (store st k) k' \<longleftrightarrow> k' = k \<or> has_run st k'"
  by (cases st) auto

text \<open>
  In one directory the sorted paths are in strictly ascending order of the
  14-digit timestamp read as a number.
\<close>

lemma single_directory_sorted:
  assumes ok: "names_ok fs"
    and scan: "scan_migration_files fs s = Return files s1"
    and chk: "check_duplicates Map.empty Map.empty files = None"
    and single: "list_migrations fs (directory s) \<noteq> Inr [] \<or>
                 path_exists fs (path_join (directory s) ''migrations'')"
  shows "sorted_wrt (\<lambda>p q. decimal_value (timestamp14 p) < decimal_value (timestamp14 q))
           (map (path_join (directory s1)) (sort files))"
proof -
  let ?T = "\<lambda>p q. decimal_value (timestamp14 p) < decimal_value (timestamp14 q)"
  let ?d = "directory s1"
  from scan_single_directory [OF scan single] obtain names where
    ls: "listdir fs ?d = Inr names"
    and files: "files = map (path_join ?d) (filter is_migration_file names)" by blast
  have slash: "\<forall>n \<in> set names. CHR ''/'' \<notin> set n" using ok ls by (auto simp: names_ok_def)
  have "map migration_timestamp files = map timestamp14 files"
    using scan_files [OF ok scan] by (simp add: migration_timestamp_is_prefix)
  with chk have dts: "distinct (map timestamp14 files)"
    by (simp add: check_duplicates_None_iff)
  then have dfiles: "distinct files" by (simp add: distinct_map)
  have inj: "inj_on timestamp14 (set files)" using dts by (simp add: distinct_map)
  have "sorted_wrt (<) (sort files)"
    using dfiles by (simp add: strict_sorted_iff)
  then have "sorted_wrt ?T (sort files)"
  proof (rule sorted_wrt_mono_rel [rotated])
    fix p q assume p: "p \<in> set (sort files)" and q: "q \<in> set (sort files)" and "p < q"
    from p files obtain n where n: "p = path_join ?d n" "n \<in> set names" "is_migration_file n" by auto
    from q files obtain m where m: "q = path_join ?d m" "m \<in> set names" "is_migration_file m" by auto
    from \<open>p < q\<close> have "p \<noteq> q" by simp
    with inj p q have "timestamp14 p \<noteq> timestamp14 q" by (auto dest: inj_onD)
    with same_directory_order [of n m ?d] n m slash \<open>p < q\<close>
    show "?T p q" by simp
  qed
  then show ?thesis
    by (simp add: sorted_wrt_map timestamp14_path_join)
qed

text \<open>
  With no dependencies, no dry run, no unit recorded, no body that raises, and no
  unit stored under a key that is the \<open>filename\<close> of another, the loop of
  \<open>migrate\<close> runs the body of every file it is given, in the order given.
\<close>

lemma migrate_loop_fresh:
  assumes live: "\<not> dry_run cfg"
    and nodeps: "\<forall>p m. import_module fs p = Inr m \<longrightarrow>
                   mod_dependencies m = None \<or> mod_dependencies m = Some []"
  shows "distinct ps \<Longrightarrow>
         \<forall>f \<in> set ps. \<exists>sc. load_script fs (directory s) (path_join (directory s) f) = Inr sc \<and>
            \<not> has_run (storage_engine s) (filename sc) \<and>
            (\<forall>w. fst (script_up sc w) = None) \<and>
            (\<forall>g \<in> set ps. \<forall>sg.
               load_script fs (directory s) (path_join (directory s) g) = Inr sg \<longrightarrow>
               g \<noteq> f \<longrightarrow> dependency_path sg \<noteq> filename sc) \<Longrightarrow>
         \<exists>s' new. migrate_loop depth cfg fs ps s = Return () s' \<and> trace s' = trace s @ new \<and>
            run_ups new = map (path_join (directory s)) ps"
proof (induction ps arbitrary: s)
  case Nil
  show ?case by simp
next
  case (Cons p ps)
  let ?d = "directory s"
  from Cons.prems(2) obtain sc where
    sc: "load_script fs ?d (path_join ?d p) = Inr sc"
    and notrun: "\<not> has_run (storage_engine s) (filename sc)"
    and body: "\<forall>w. fst (script_up sc w) = None"
    by auto
  from load_script_origin [OF sc] obtain m where
    fp: "file_path sc = path_join ?d p" and im: "import_module fs (path_join ?d p) = Inr m"
    and dm: "dependencies sc = mod_dependencies m" by blast
  from nodeps im have "mod_dependencies m = None \<or> mod_dependencies m = Some []" by blast
  with dm have phase: "dependency_phase depth cfg fs sc s = Return Proceed s"
    by (auto simp: dependency_phase_def)
  obtain w where w: "script_up sc (world s) = (None, w)"
    using body by (cases "script_up sc (world s)") (metis fst_conv)
  define s1 where "s1 = do_store (dependency_path sc) ((log_event (RunUp (file_path sc)) s)\<lparr>world := w\<rparr>)"
  have up: "up depth cfg fs sc s = Return () s1"
    using notrun phase live w by (simp add: up_unfold run_up_def s1_def del: up.simps)
  have t1: "trace s1 = trace s @ [RunUp (path_join ?d p), Store (dependency_path sc)]"
    and d1: "directory s1 = ?d"
    and st1: "storage_engine s1 = store (storage_engine s) (dependency_path sc)"
    by (simp_all add: s1_def do_store_def fp)
  have eq: "migrate_loop depth cfg fs (p # ps) s = migrate_loop depth cfg fs ps s1"
    using sc up by (simp add: migrate_up_def del: up.simps)
  have "\<forall>f \<in> set ps. \<exists>sf. load_script fs (directory s1) (path_join (directory s1) f) = Inr sf \<and>
            \<not> has_run (storage_engine s1) (filename sf) \<and>
            (\<forall>w. fst (script_up sf w) = None) \<and>
            (\<forall>g \<in> set ps. \<forall>sg.
               load_script fs (directory s1) (path_join (directory s1) g) = Inr sg \<longrightarrow>
               g \<noteq> f \<longrightarrow> dependency_path sg \<noteq> filename sf)"
  proof
    fix f assume f: "f \<in> set ps"
    with Cons.prems(2) obtain sf where
      sf: "load_script fs ?d (path_join ?d f) = Inr sf"
      and nr: "\<not> has_run (storage_engine s) (filename sf)"
      and bf: "\<forall>w. fst (script_up sf w) = None"
      and others: "\<forall>g \<in> set (p # ps). \<forall>sg.
               load_script fs ?d (path_join ?d g) = Inr sg \<longrightarrow>
               g \<noteq> f \<longrightarrow> dependency_path sg \<noteq> filename sf"
      by (metis list.set_intros(2))
    from f Cons.prems(1) have "p \<noteq> f" by auto
    with others sc have "dependency_path sc \<noteq> filename sf" by auto
    with nr have "\<not> has_run (storage_engine s1) (filename sf)"
      by (simp add: st1 has_run_store)
    with sf bf others show "\<exists>sf. load_script fs (directory s1) (path_join (directory s1) f) = Inr sf \<and>
            \<not> has_run (storage_engine s1) (filename sf) \<and>
            (\<forall>w. fst (script_up sf w) = None) \<and>
            (\<forall>g \<in> set ps. \<forall>sg.
               load_script fs (directory s1) (path_join (directory s1) g) = Inr sg \<longrightarrow>
               g \<noteq> f \<longrightarrow> dependency_path sg \<noteq> filename sf)"
      unfolding d1 by auto
  qed
  moreover from Cons.prems(1) have "distinct ps" by simp
  ultimately obtain s' new where
    r: "migrate_loop depth cfg fs ps s1 = Return () s'" and t: "trace s' = trace s1 @ new"
    and ru: "run_ups new = map (path_join (directory s1)) ps"
    using Cons.IH [of s1] by blast
  have a: "migrate_loop depth cfg fs (p # ps) s = Return () s'"
    using eq r by (simp only:)
  have b: "trace s' = trace s @ ([RunUp (path_join ?d p), Store (dependency_path sc)] @ new)"
    using t t1 by simp
  have c: "run_ups ([RunUp (path_join ?d p), Store (dependency_path sc)] @ new) =
      map (path_join ?d) (p # ps)"
    using ru d1 by simp
  show ?case
    by (rule exI [of _ s'], rule exI [of _ "[RunUp (path_join ?d p), Store (dependency_path sc)] @ new"])
       (simp only: a b c simp_thms)
qed

text \<open>
  C2, amended: take a root whose files \<open>migrate\<close> finds, in any of the three
  layouts, and in which no migration module declares a dependency. The \<open>up\<close>
  bodies that \<open>migrate\<close> executes are those of the found paths in sorted order,
  with none out of place. They are all of them, and \<open>migrate\<close> returns, when this
  is not a dry run and for every unit found its \<open>filename\<close> is not recorded, its
  body does not raise, and no other unit found is stored under that \<open>filename\<close>.
  When the files are found in one directory (the flat layout, or the
  \<open>migrations\<close> subfolder) the sorted order is the strictly ascending order of the
  14-digit timestamp read as a number; in the module layout it is not in general,
  as the module folder decides first.
\<close>

theorem migrate_applies_in_path_order:
  assumes found: "find_all_migration_files fs s = Return files s1"
    and nodeps: "\<forall>p m. import_module fs p = Inr m \<longrightarrow>
                   mod_dependencies m = None \<or> mod_dependencies m = Some []"
  shows "subseq (run_ups (new_events s (migrate depth cfg fs s)))
           (map (path_join (directory s1)) (sort files)) \<and>
         (\<not> dry_run cfg \<and>
          (\<forall>f \<in> set files. \<exists>sc.
              load_script fs (directory s1) (path_join (directory s1) f) = Inr sc \<and>
              \<not> has_run (storage_engine s) (filename sc) \<and>
              (\<forall>w. fst (script_up sc w) = None) \<and>
              (\<forall>g \<in> set files. \<forall>sg.
                 load_script fs (directory s1) (path_join (directory s1) g) = Inr sg \<longrightarrow>
                 g \<noteq> f \<longrightarrow> dependency_path sg \<noteq> filename sc)) \<longrightarrow>
          (\<exists>s'. migrate depth cfg fs s = Return () s') \<and>
          run_ups (new_events s (migrate depth cfg fs s)) =
            map (path_join (directory s1)) (sort files)) \<and>
         (names_ok fs \<and>
          (list_migrations fs (directory s) \<noteq> Inr [] \<or>
           path_exists fs (path_join (directory s) ''migrations'')) \<longrightarrow>
          sorted_wrt (\<lambda>p q. decimal_value (timestamp14 p) < decimal_value (timestamp14 q))
            (map (path_join (directory s1)) (sort files)) \<and>
          sorted_wrt (\<lambda>p q. decimal_value (timestamp14 p) < decimal_value (timestamp14 q))
            (run_ups (new_events s (migrate depth cfg fs s))))"
proof -
  let ?T = "\<lambda>p q. decimal_value (timestamp14 p) < decimal_value (timestamp14 q)"
  let ?L = "map (path_join (directory s1)) (sort files)"
  let ?new = "new_events s (migrate depth cfg fs s)"
  from found have scan: "scan_migration_files fs s = Return files s1"
    and chk: "check_duplicates Map.empty Map.empty files = None"
    by (auto simp: find_all_migration_files_def split: result.splits option.splits)
  from scan_frame [OF scan] have tr: "trace s1 = trace s"
    and st: "storage_engine s1 = storage_engine s" by simp_all
  have mig: "migrate depth cfg fs s = migrate_loop depth cfg fs (sort files) s1"
    using found by (simp add: migrate_def)
  from migrate_loop_run_ups [OF nodeps, of depth cfg "sort files" s1] obtain new where
    t: "trace (state_of (migrate_loop depth cfg fs (sort files) s1)) = trace s1 @ new"
    and sub: "subseq (run_ups new) ?L" by blast
  have "?new = new" using mig t tr by (simp add: new_events_def)
  with sub have part1: "subseq (run_ups ?new) ?L" by simp
  have part2: "(\<exists>s'. migrate depth cfg fs s = Return () s') \<and> run_ups ?new = ?L"
    if live: "\<not> dry_run cfg"
      and units: "\<forall>f \<in> set files. \<exists>sc.
              load_script fs (directory s1) (path_join (directory s1) f) = Inr sc \<and>
              \<not> has_run (storage_engine s) (filename sc) \<and>
              (\<forall>w. fst (script_up sc w) = None) \<and>
              (\<forall>g \<in> set files. \<forall>sg.
                 load_script fs (directory s1) (path_join (directory s1) g) = Inr sg \<longrightarrow>
                 g \<noteq> f \<longrightarrow> dependency_path sg \<noteq> filename sc)"
  proof -
    have "distinct (map migration_name files)" using chk by (simp add: check_duplicates_None_iff)
    then have d: "distinct (sort files)" by (simp add: distinct_map)
    have u: "\<forall>f \<in> set (sort files). \<exists>sc.
              load_script fs (directory s1) (path_join (directory s1) f) = Inr sc \<and>
              \<not> has_run (storage_engine s1) (filename sc) \<and>
              (\<forall>w. fst (script_up sc w) = None) \<and>
              (\<forall>g \<in> set (sort files). \<forall>sg.
                 load_script fs (directory s1) (path_join (directory s1) g) = Inr sg \<longrightarrow>
                 g \<noteq> f \<longrightarrow> dependency_path sg \<noteq> filename sc)"
      using units by (simp only: set_sort st)
    from migrate_loop_fresh [OF live nodeps d u, of depth] obtain s' n where
      r: "migrate_loop depth cfg fs (sort files) s1 = Return () s'"
      and t': "trace s' = trace s1 @ n" and ru: "run_ups n = ?L" by blast
    have "?new = n" using mig r t' tr by (simp add: new_events_def)
    with ru r mig show ?thesis by simp
  qed
  have part3: "sorted_wrt ?T ?L \<and> sorted_wrt ?T (run_ups ?new)"
    if ok: "names_ok fs"
      and single: "list_migrations fs (directory s) \<noteq> Inr [] \<or>
                path_exists fs (path_join (directory s) ''migrations'')"
  proof -
    have "sorted_wrt ?T ?L" by (rule single_directory_sorted [OF ok scan chk single])
    moreover from part1 this have "sorted_wrt ?T (run_ups ?new)" by (rule subseq_sorted_wrt)
    ultimately show ?thesis by simp
  qed
  from part1 part2 part3 show ?thesis by blast
qed

theorem migrate_applies_in_path_order_witness:
  "names_ok (fs_flat None None) \<and>
   find_all_migration_files (fs_flat None None) (fresh (DynamoDB []) ''/m'')
     = Return [''/m/20240410094008_migration.py'', ''/m/20240410094006_migration.py'',
               ''/m/20240410094004_migration.py''] (fresh (DynamoDB []) ''/m'') \<and>
   \<not> dry_run live \<and>
   list_migrations (fs_flat None None) (directory (fresh (DynamoDB []) ''/m'')) \<noteq> Inr [] \<and>
   (\<exists>s'. migrate 5 live (fs_flat None None) (fresh (DynamoDB []) ''/m'') = Return () s') \<and>
   run_ups (new_events (fresh (DynamoDB []) ''/m'')
      (migrate 5 live (fs_flat None None) (fresh (DynamoDB []) ''/m'')))
     = [''/m/20240410094004_migration.py'', ''/m/20240410094006_migration.py'',
        ''/m/20240410094008_migration.py''] \<and>
   sorted_wrt (\<lambda>p q. decimal_value (timestamp14 p) < decimal_value (timestamp14 q))
     (run_ups (new_events (fresh (DynamoDB []) ''/m'')
        (migrate 5 live (fs_flat None None) (fresh (DynamoDB []) ''/m''))))"
proof -
  let ?fs = "fs_flat None None :: string list filesystem"
  let ?s = "fresh (DynamoDB []) ''/m''"
  let ?files = "[''/m/20240410094008_migration.py'', ''/m/20240410094006_migration.py'',
               ''/m/20240410094004_migration.py'']"
  have dir: "directory ?s = ''/m''" and st: "storage_engine ?s = DynamoDB []"
    by (simp_all add: fresh_def)
  have h1: "names_ok ?fs"
    unfolding fs_flat_def by (rule names_ok_mk_fs) simp
  have m: "is_migration_file ''20240410094008_migration.py''"
    "is_migration_file ''20240410094006_migration.py''"
    "is_migration_file ''20240410094004_migration.py''" by code_simp+
  have lm: "list_migrations ?fs ''/m'' = Inr ?files"
    by (simp add: list_migrations_def fs_flat_def mk_fs_def m path_join_def endswith_def
        suffix_to_prefix)
  have scan: "scan_migration_files ?fs ?s = Return ?files ?s"
    by (simp add: scan_migration_files_def dir lm)
  have d1: "distinct (map migration_name ?files)"
    and d2: "distinct (map migration_timestamp ?files)"
    by code_simp+
  have chk: "check_duplicates Map.empty Map.empty ?files = None"
    using d1 d2 by (simp only: check_duplicates_None_iff dom_empty Int_empty_right simp_thms)
  have h2: "find_all_migration_files ?fs ?s = Return ?files ?s"
    by (simp add: find_all_migration_files_def scan chk del: check_duplicates.simps)
  have h3: "\<forall>p m. import_module ?fs p = Inr m \<longrightarrow>
              mod_dependencies m = None \<or> mod_dependencies m = Some []"
    by (auto simp: fs_flat_def mk_fs_def unit_module_def split: option.splits if_splits)
  have live: "\<not> dry_run live" by (simp add: live_def)
  have single: "list_migrations ?fs (directory ?s) \<noteq> Inr []" by (simp add: dir lm)
  have pj: "path_join ''/m'' ''/m/20240410094008_migration.py'' = ''/m/20240410094008_migration.py''"
    "path_join ''/m'' ''/m/20240410094006_migration.py'' = ''/m/20240410094006_migration.py''"
    "path_join ''/m'' ''/m/20240410094004_migration.py'' = ''/m/20240410094004_migration.py''"
    by (simp_all add: path_join_def)
  have units: "\<forall>f \<in> set ?files. \<exists>sc.
              load_script ?fs (directory ?s) (path_join (directory ?s) f) = Inr sc \<and>
              \<not> has_run (storage_engine ?s) (filename sc) \<and>
              (\<forall>w. fst (script_up sc w) = None) \<and>
              (\<forall>g \<in> set ?files. \<forall>sg.
                 load_script ?fs (directory ?s) (path_join (directory ?s) g) = Inr sg \<longrightarrow>
                 g \<noteq> f \<longrightarrow> dependency_path sg \<noteq> filename sc)"
    by (simp add: dir st pj load_4004 load_4006 load_4008 unit_4004_def unit_4006_def
        unit_4008_def says_def)
  have order: "map (path_join (directory ?s)) (sort ?files)
     = [''/m/20240410094004_migration.py'', ''/m/20240410094006_migration.py'',
        ''/m/20240410094008_migration.py'']"
    by code_simp
  from migrate_applies_in_path_order [OF h2 h3, of 5 live] h1 live units single
  have "(\<exists>s'. migrate 5 live ?fs ?s = Return () s') \<and>
        run_ups (new_events ?s (migrate 5 live ?fs ?s)) = map (path_join (directory ?s)) (sort ?files) \<and>
        sorted_wrt (\<lambda>p q. decimal_value (timestamp14 p) < decimal_value (timestamp14 q))
          (run_ups (new_events ?s (migrate 5 live ?fs ?s)))"
    by blast
  then have a: "\<exists>s'. migrate 5 live ?fs ?s = Return () s'"
    and b: "run_ups (new_events ?s (migrate 5 live ?fs ?s)) = map (path_join (directory ?s)) (sort ?files)"
    and c: "sorted_wrt (\<lambda>p q. decimal_value (timestamp14 p) < decimal_value (timestamp14 q))
          (run_ups (new_events ?s (migrate 5 live ?fs ?s)))"
    by blast+
  from b have b': "run_ups (new_events ?s (migrate 5 live ?fs ?s))
     = [''/m/20240410094004_migration.py'', ''/m/20240410094006_migration.py'',
        ''/m/20240410094008_migration.py'']"
    by (simp only: order)
  show ?thesis by (intro conjI) (rule h1 h2 live single a b' c)+
qed

section \<open>Dependencies before dependents\<close>

lemma storage_after_append [simp]:
  "storage_after (a @ b) st = storage_after b (storage_after a st)"
  by (induction a st rule: storage_after.induct) simp_all

lemma dependencies_first_append [simp]:
  "dependencies_first fs dir st (a @ b) \<longleftrightarrow>
     dependencies_first fs dir st a \<and> dependencies_first fs dir (storage_after a st) b"
  by (induction fs dir st a rule: dependencies_first.induct) simp_all

lemma run_up_keeps_records:
  "has_run (storage_engine s) k \<Longrightarrow> has_run (storage_engine (state_of (run_up cfg script s))) k"
  by (auto simp: run_up_def Let_def do_store_def has_run_store split: prod.splits option.splits)

lemma up_keeps_records:
  "has_run (storage_engine s) k \<Longrightarrow> has_run (storage_engine (state_of (up depth cfg fs script s))) k"
proof -
  have "has_run (storage_engine s) k \<longrightarrow> has_run (storage_engine (state_of (up depth cfg fs script s))) k"
    by (rule up_steps [where R = "\<lambda>s s'. has_run (storage_engine s) k \<longrightarrow> has_run (storage_engine s') k"])
       (auto simp: run_up_keeps_records)
  then show "has_run (storage_engine s) k \<Longrightarrow> has_run (storage_engine (state_of (up depth cfg fs script s))) k"
    by simp
qed

lemma up_dependencies_keeps_records:
  "has_run (storage_engine s) k \<Longrightarrow>
     has_run (storage_engine (state_of (up_dependencies depth cfg fs script deps s))) k"
proof -
  have "has_run (storage_engine s) k \<longrightarrow>
          has_run (storage_engine (state_of (up_dependencies depth cfg fs script deps s))) k"
    by (rule up_steps_aux(2) [where R = "\<lambda>s s'. has_run (storage_engine s) k \<longrightarrow> has_run (storage_engine s') k"])
       (auto simp: run_up_keeps_records)
  then show "has_run (storage_engine s) k \<Longrightarrow>
     has_run (storage_engine (state_of (up_dependencies depth cfg fs script deps s))) k"
    by simp
qed


lemma run_up_trace:
  assumes "\<not> dry_run cfg"
  shows "\<exists>new. trace (state_of (run_up cfg script s)) = trace s @ RunUp (file_path script) # new \<and>
           directory (state_of (run_up cfg script s)) = directory s \<and>
           storage_engine (state_of (run_up cfg script s)) = storage_after new (storage_engine s) \<and>
           (new = [] \<or> new = [Store (dependency_path script)]) \<and>
           (\<forall>v s'. run_up cfg script s = Return v s' \<longrightarrow> new = [Store (dependency_path script)])"
  using assms
  by (auto simp: run_up_def Let_def do_store_def split: prod.splits option.splits)

lemma dependencies_first_logs:
  "list_all is_log evs \<Longrightarrow> dependencies_first fs dir st evs"
  by (induction fs dir st evs rule: dependencies_first.induct) simp_all

lemma storage_after_logs:
  "list_all is_log evs \<Longrightarrow> storage_after evs st = st"
  by (induction evs st rule: storage_after.induct) simp_all

lemma stores_after_append:
  "stores_after fs dir prev (a @ b) \<longleftrightarrow>
     stores_after fs dir prev a \<and>
     stores_after fs dir (if a = [] then prev else Some (last a)) b"
proof (induction a arbitrary: prev)
  case Nil
  show ?case by simp
next
  case (Cons ev a)
  show ?case by (cases ev) (simp_all add: Cons.IH)
qed

lemma stores_after_weaken:
  "stores_after fs dir None b \<Longrightarrow> stores_after fs dir prev b"
proof (cases b)
  case Nil
  then show ?thesis by simp
next
  case (Cons ev evs)
  assume "stores_after fs dir None b"
  with Cons show ?thesis by (cases ev) simp_all
qed

lemma stores_follow_bodies_append:
  "stores_follow_bodies fs dir a \<Longrightarrow> stores_follow_bodies fs dir b \<Longrightarrow>
     stores_follow_bodies fs dir (a @ b)"
  by (simp add: stores_follow_bodies_def stores_after_append stores_after_weaken)

lemma stores_follow_bodies_prefix:
  "stores_follow_bodies fs dir (a @ b) \<Longrightarrow> stores_follow_bodies fs dir a"
  by (simp add: stores_follow_bodies_def stores_after_append)

lemma up_run_ok_refl: "up_run_ok fs s s"
  unfolding up_run_ok_def by (rule exI [of _ "[]"]) (simp add: stores_follow_bodies_def)

lemma up_run_ok_trans:
  assumes "up_run_ok fs s s'" and "up_run_ok fs s' s''"
  shows "up_run_ok fs s s''"
proof -
  from assms(1) obtain n1 where 1: "trace s' = trace s @ n1" "directory s' = directory s"
    "storage_engine s' = storage_after n1 (storage_engine s)"
    "dependencies_first fs (directory s) (storage_engine s) n1"
    "stores_follow_bodies fs (directory s) n1"
    unfolding up_run_ok_def by blast
  from assms(2) obtain n2 where 2: "trace s'' = trace s' @ n2" "directory s'' = directory s'"
    "storage_engine s'' = storage_after n2 (storage_engine s')"
    "dependencies_first fs (directory s') (storage_engine s') n2"
    "stores_follow_bodies fs (directory s') n2"
    unfolding up_run_ok_def by blast
  show ?thesis
    unfolding up_run_ok_def
    by (rule exI [of _ "n1 @ n2"]) (insert 1 2, simp add: stores_follow_bodies_append)
qed

lemma up_run_ok_log: "up_run_ok fs s (log_event (LogError msg) s)"
  unfolding up_run_ok_def by (rule exI [of _ "[LogError msg]"]) (simp add: stores_follow_bodies_def)


lemma up_dependencies_first_aux:
  assumes md: "migrate_dependencies cfg" and live: "\<not> dry_run cfg"
  shows "load_script fs (directory s) (file_path script) = Inr script \<Longrightarrow>
           up_run_ok fs s (state_of (up depth cfg fs script s)) \<and>
           (\<forall>v s'. up depth cfg fs script s = Return v s' \<longrightarrow> recorded (storage_engine s') script)"
    and "up_run_ok fs s (state_of (up_dependencies depth cfg fs script deps s)) \<and>
         (\<forall>fl s'. up_dependencies depth cfg fs script deps s = Return fl s' \<longrightarrow>
            fl = Proceed \<and>
            (\<forall>d \<in> set deps. \<forall>dep.
               load_script fs (directory s) (resolve_dependency_path (directory s) d) = Inr dep \<longrightarrow>
               recorded (storage_engine s') dep))"
  using md live
proof (induction depth cfg fs script s and depth cfg fs script deps s
    rule: up_up_dependencies.induct)
  case (1 depth cfg fs script s)
  note md = "1.prems"(2) and live = "1.prems"(3) and self = "1.prems"(1)
  show ?case
  proof (cases "has_run (storage_engine s) (filename script)")
    case True
    then show ?thesis by (simp add: up_run_ok_refl recorded_def)
  next
    case False
    define r where "r = dependency_phase depth cfg fs script s"
    have phase: "up_run_ok fs s (state_of r) \<and>
         (\<forall>fl s'. r = Return fl s' \<longrightarrow> fl = Proceed \<and>
            (\<forall>deps. dependencies script = Some deps \<longrightarrow>
              (\<forall>d \<in> set deps. \<forall>dep.
                 load_script fs (directory s) (resolve_dependency_path (directory s) d) = Inr dep \<longrightarrow>
                 recorded (storage_engine s') dep)))"
    proof (cases "dependencies script")
      case None
      then show ?thesis by (simp add: r_def dependency_phase_def up_run_ok_refl)
    next
      case (Some deps)
      from "1.IH" [OF False Some md live] Some show ?thesis
        by (simp add: r_def dependency_phase_def)
    qed
    show ?thesis
    proof (cases r)
      case (Raise e s1)
      with phase False show ?thesis
        by (simp add: up_unfold r_def [symmetric] del: up.simps)
    next
      case (Return fl s1)
      with phase have ok1: "up_run_ok fs s s1" and fl: "fl = Proceed"
        and deps: "\<And>deps d dep. dependencies script = Some deps \<Longrightarrow> d \<in> set deps \<Longrightarrow>
                 load_script fs (directory s) (resolve_dependency_path (directory s) d) = Inr dep \<Longrightarrow>
                 recorded (storage_engine s1) dep"
        by auto
      from ok1 have dir1: "directory s1 = directory s" by (auto simp: up_run_ok_def)
      have up_eq: "up depth cfg fs script s = run_up cfg script s1"
        using False Return fl by (simp add: up_unfold r_def [symmetric] del: up.simps)
      from run_up_trace [OF live, of script s1] obtain new where
        t: "trace (state_of (run_up cfg script s1)) = trace s1 @ RunUp (file_path script) # new"
        and d: "directory (state_of (run_up cfg script s1)) = directory s1"
        and st: "storage_engine (state_of (run_up cfg script s1)) = storage_after new (storage_engine s1)"
        and shape: "new = [] \<or> new = [Store (dependency_path script)]"
        and ret: "\<forall>v s'. run_up cfg script s1 = Return v s' \<longrightarrow> new = [Store (dependency_path script)]"
        by blast
      have rec: "dependencies_recorded fs (directory s1) (storage_engine s1) (file_path script)"
        using self deps dir1
        by (auto simp: dependencies_recorded_def list_all_iff split: option.splits sum.splits)
      have "dependencies_first fs (directory s1) (storage_engine s1) (RunUp (file_path script) # new)"
        using shape rec by auto
      moreover have "stores_follow_bodies fs (directory s1) (RunUp (file_path script) # new)"
        using shape self dir1 by (auto simp: stores_follow_bodies_def)
      ultimately have "up_run_ok fs s1 (state_of (run_up cfg script s1))"
        using t d st unfolding up_run_ok_def
        by (intro exI [of _ "RunUp (file_path script) # new"]) simp
      with ok1 have "up_run_ok fs s (state_of (up depth cfg fs script s))"
        unfolding up_eq by (rule up_run_ok_trans)
      moreover have "\<forall>v s'. up depth cfg fs script s = Return v s' \<longrightarrow> recorded (storage_engine s') script"
      proof (intro allI impI)
        fix v s' assume "up depth cfg fs script s = Return v s'"
        then have r: "run_up cfg script s1 = Return v s'" by (simp only: up_eq)
        with ret have "new = [Store (dependency_path script)]" by blast
        with st r show "recorded (storage_engine s') script"
          by (simp add: recorded_def has_run_store)
      qed
      ultimately show ?thesis by blast
    qed
  qed
next
  case (2 depth cfg fs script s)
  show ?case by (simp add: up_run_ok_refl)
next
  case (3 depth cfg fs script dependency rest s)
  note md = "3.prems"(1) and live = "3.prems"(2)
  let ?p = "resolve_dependency_path (directory s) dependency"
  show ?case
  proof (cases "load_script fs (directory s) ?p")
    case (Inl e)
    then show ?thesis by (simp add: up_run_ok_refl)
  next
    case (Inr dep)
    show ?thesis
    proof (cases "has_run (storage_engine s) (dependency_path dep)")
      case True
      have eq: "up_dependencies depth cfg fs script (dependency # rest) s =
                up_dependencies depth cfg fs script rest s"
        using Inr True by simp
      from "3.IH"(3) [OF Inr _ md live] True
      have ih: "up_run_ok fs s (state_of (up_dependencies depth cfg fs script rest s))"
        and ihr: "\<And>fl s'. up_dependencies depth cfg fs script rest s = Return fl s' \<Longrightarrow>
            fl = Proceed \<and>
            (\<forall>d \<in> set rest. \<forall>dep.
               load_script fs (directory s) (resolve_dependency_path (directory s) d) = Inr dep \<longrightarrow>
               recorded (storage_engine s') dep)"
        by auto
      have "\<And>fl s'. up_dependencies depth cfg fs script rest s = Return fl s' \<Longrightarrow>
              recorded (storage_engine s') dep"
      proof -
        fix fl s' assume r: "up_dependencies depth cfg fs script rest s = Return fl s'"
        from up_dependencies_keeps_records [OF True, of depth cfg fs script rest] r
        show "recorded (storage_engine s') dep" by (simp add: recorded_def)
      qed
      with ih ihr Inr show ?thesis unfolding eq by auto
    next
      case False
      show ?thesis
      proof (cases depth)
        case 0
        with Inr False md show ?thesis by (simp add: up_run_ok_refl)
      next
        case (Suc n)
        have self: "load_script fs (directory s) (file_path dep) = Inr dep"
          using Inr load_script_origin [OF Inr] by simp
        from "3.IH"(1) [OF Inr False _ Inr Suc self md live] md
        have ih1: "up_run_ok fs s (state_of (up n cfg fs dep s))"
          and rec1: "\<And>v s'. up n cfg fs dep s = Return v s' \<Longrightarrow> recorded (storage_engine s') dep"
          by auto
        show ?thesis
        proof (cases "up n cfg fs dep s")
          case (Raise e s1)
          with ih1 Inr False md Suc show ?thesis by simp
        next
          case (Return v s1)
          have eq: "up_dependencies depth cfg fs script (dependency # rest) s =
                up_dependencies depth cfg fs script rest s1"
            using Inr False md Suc Return by simp
          from ih1 Return have ok1: "up_run_ok fs s s1" by simp
          then have dir1: "directory s1 = directory s" by (auto simp: up_run_ok_def)
          from rec1 [OF Return] have r1: "recorded (storage_engine s1) dep" .
          from "3.IH"(2) [OF Inr False _ Inr Suc Return md live] md
          have ih2: "up_run_ok fs s1 (state_of (up_dependencies depth cfg fs script rest s1))"
            and ihr: "\<And>fl s'. up_dependencies depth cfg fs script rest s1 = Return fl s' \<Longrightarrow>
              fl = Proceed \<and>
              (\<forall>d \<in> set rest. \<forall>dep.
                 load_script fs (directory s1) (resolve_dependency_path (directory s1) d) = Inr dep \<longrightarrow>
                 recorded (storage_engine s') dep)"
            by auto
          have keep: "\<And>fl s'. up_dependencies depth cfg fs script rest s1 = Return fl s' \<Longrightarrow>
              recorded (storage_engine s') dep"
          proof -
            fix fl s' assume r: "up_dependencies depth cfg fs script rest s1 = Return fl s'"
            from r1 have "has_run (storage_engine s1) (dependency_path dep) \<or>
                          has_run (storage_engine s1) (filename dep)" by (simp add: recorded_def)
            then show "recorded (storage_engine s') dep"
              using up_dependencies_keeps_records [of s1 _ depth cfg fs script rest] r
              by (auto simp: recorded_def)
          qed
          have "up_run_ok fs s (state_of (up_dependencies depth cfg fs script rest s1))"
            using ok1 ih2 by (rule up_run_ok_trans)
          with ihr keep Inr dir1 show ?thesis unfolding eq by auto
        qed
      qed
    qed
  qed
qed



lemma has_run_delete:
  "delete st k' = Inr st' \<Longrightarrow> has_run st' k \<Longrightarrow> has_run st k"
  by (cases st) (auto split: if_splits)

lemma stored_keys_have_bodies_aux:
  "stores_after fs dir prev pre \<Longrightarrow> has_run (storage_after pre st) k \<Longrightarrow>
     has_run st k \<or>
     (\<exists>a q v b. (case prev of None \<Rightarrow> [] | Some e \<Rightarrow> [e]) @ pre = a @ RunUp q # Store k # b \<and>
        load_script fs dir q = Inr v \<and> dependency_path v = k)"
proof (induction pre arbitrary: prev st)
  case Nil
  then show ?case by simp
next
  case (Cons ev evs)
  let ?pe = "case prev of None \<Rightarrow> [] | Some e \<Rightarrow> [e]"
  have later: "stores_after fs dir (Some ev) evs"
    using Cons.prems(1) by (cases ev) simp_all
  have lift: "\<exists>a q v b. ?pe @ ev # evs = a @ RunUp q # Store k # b \<and>
        load_script fs dir q = Inr v \<and> dependency_path v = k"
    if "\<exists>a q v b. [ev] @ evs = a @ RunUp q # Store k # b \<and>
        load_script fs dir q = Inr v \<and> dependency_path v = k"
  proof -
    from that obtain a q v b where "[ev] @ evs = a @ RunUp q # Store k # b"
      and l: "load_script fs dir q = Inr v" "dependency_path v = k" by blast
    then have "?pe @ ev # evs = (?pe @ a) @ RunUp q # Store k # b" by simp
    with l show ?thesis by blast
  qed
  show ?case
  proof (cases ev)
    case (Store k')
    from Cons.prems(2) Store have "has_run (storage_after evs (store st k')) k" by simp
    from Cons.IH [OF later this] have
      "has_run (store st k') k \<or>
       (\<exists>a q v b. [ev] @ evs = a @ RunUp q # Store k # b \<and>
         load_script fs dir q = Inr v \<and> dependency_path v = k)" by simp
    then show ?thesis
    proof
      assume "has_run (store st k') k"
      then have "k = k' \<or> has_run st k" by (simp add: has_run_store)
      then show ?thesis
      proof
        assume eq: "k = k'"
        from Cons.prems(1) Store obtain q v where
          "prev = Some (RunUp q)" "load_script fs dir q = Inr v" "dependency_path v = k'"
          by (auto split: option.splits event.splits sum.splits)
        with eq Store have "?pe @ ev # evs = [] @ RunUp q # Store k # evs \<and>
            load_script fs dir q = Inr v \<and> dependency_path v = k" by simp
        then show ?thesis by blast
      qed simp
    next
      assume "\<exists>a q v b. [ev] @ evs = a @ RunUp q # Store k # b \<and>
         load_script fs dir q = Inr v \<and> dependency_path v = k"
      from lift [OF this] show ?thesis by blast
    qed
  next
    case (Delete k')
    define st' where "st' = (case delete st k' of Inl _ \<Rightarrow> st | Inr st'' \<Rightarrow> st'')"
    from Cons.prems(2) Delete have "has_run (storage_after evs st') k" by (simp add: st'_def)
    from Cons.IH [OF later this] have
      "has_run st' k \<or>
       (\<exists>a q v b. [ev] @ evs = a @ RunUp q # Store k # b \<and>
         load_script fs dir q = Inr v \<and> dependency_path v = k)" by simp
    moreover have "has_run st' k \<Longrightarrow> has_run st k"
      by (auto simp: st'_def split: sum.splits dest: has_run_delete)
    ultimately show ?thesis using lift by blast
  next
    case (RunUp q)
    from Cons.prems(2) RunUp have "has_run (storage_after evs st) k" by simp
    from Cons.IH [OF later this] lift show ?thesis by auto
  next
    case (RunDown q)
    from Cons.prems(2) RunDown have "has_run (storage_after evs st) k" by simp
    from Cons.IH [OF later this] lift show ?thesis by auto
  next
    case (LogError msg)
    from Cons.prems(2) LogError have "has_run (storage_after evs st) k" by simp
    from Cons.IH [OF later this] lift show ?thesis by auto
  qed
qed

lemma stored_keys_have_bodies:
  assumes "stores_follow_bodies fs dir pre" and "has_run (storage_after pre st) k"
  shows "has_run st k \<or>
     (\<exists>a q v b. pre = a @ RunUp q # Store k # b \<and> load_script fs dir q = Inr v \<and>
        dependency_path v = k)"
  using stored_keys_have_bodies_aux [of fs dir None pre st k] assms
  by (simp add: stores_follow_bodies_def)

lemma up_run_ok_dry:
  assumes "dry_run cfg"
  shows "up_run_ok fs s (state_of (up depth cfg fs script s))"
proof -
  from up_dry_run_logs [OF assms, of s depth fs script] obtain log where
    l: "list_all is_log log" "state_of (up depth cfg fs script s) = s\<lparr>trace := trace s @ log\<rparr>"
    unfolding only_logs_def by blast
  have "stores_after fs (directory s) prev log" for prev
    using l(1) by (induction log arbitrary: prev) (auto elim: is_log.elims)
  then show ?thesis
    unfolding up_run_ok_def using l
    by (intro exI [of _ log])
       (simp add: dependencies_first_logs storage_after_logs stores_follow_bodies_def)
qed


lemma up_run_ok_up:
  assumes "migrate_dependencies cfg"
    and "load_script fs (directory s) (file_path script) = Inr script"
  shows "up_run_ok fs s (state_of (up depth cfg fs script s))"
proof (cases "dry_run cfg")
  case True
  then show ?thesis by (rule up_run_ok_dry)
next
  case False
  from up_dependencies_first_aux(1) [OF assms(1) False assms(2)] show ?thesis by blast
qed

text \<open>
  What holds of every call of \<open>up\<close> with \<open>migrate_dependencies\<close> true, on a unit
  as the loader returns it and at any depth of nesting: take any \<open>up\<close> body in
  the events of that call, of the unit \<open>u\<close> at path \<open>p\<close>. For every declared
  dependency \<open>dep\<close> of \<open>u\<close>, \<open>has_run\<close> answers true on one of the two
  identifiers of \<open>dep\<close> in the storage as it stands when that body starts
  (\<open>pre\<close> holds the events before it). And whatever is recorded then was
  recorded when the call began, or was stored in \<open>pre\<close> straight after the \<open>up\<close>
  body of the unit \<open>v\<close> stored under that key. Nothing makes \<open>v\<close> the unit
  \<open>dep\<close>: the key of \<open>v\<close> may be the \<open>filename\<close> of \<open>dep\<close>.
\<close>

lemma up_body_after_recorded_keys:
  assumes "migrate_dependencies cfg"
    and "load_script fs (directory s) (file_path script) = Inr script"
    and "new_events s (up depth cfg fs script s) = pre @ RunUp p # post"
    and "load_script fs (directory s) p = Inr u"
    and "dependencies u = Some deps"
    and "d \<in> set deps"
    and "load_script fs (directory s) (resolve_dependency_path (directory s) d) = Inr dep"
  shows "recorded (storage_after pre (storage_engine s)) dep \<and>
         (\<forall>k. has_run (storage_after pre (storage_engine s)) k \<longrightarrow>
            has_run (storage_engine s) k \<or>
            (\<exists>a q v b. pre = a @ RunUp q # Store k # b \<and>
               load_script fs (directory s) q = Inr v \<and> dependency_path v = k))"
proof -
  from up_run_ok_up [OF assms(1,2), of depth] obtain new where
    t: "trace (state_of (up depth cfg fs script s)) = trace s @ new"
    and df: "dependencies_first fs (directory s) (storage_engine s) new"
    and sf: "stores_follow_bodies fs (directory s) new"
    unfolding up_run_ok_def by blast
  from t assms(3) have new: "new = pre @ RunUp p # post" by (simp add: new_events_def)
  from df new have "dependencies_recorded fs (directory s) (storage_after pre (storage_engine s)) p"
    by simp
  with assms(4-7) have "recorded (storage_after pre (storage_engine s)) dep"
    by (auto simp: dependencies_recorded_def list_all_iff)
  moreover from sf new have "stores_follow_bodies fs (directory s) pre"
    by (auto dest: stores_follow_bodies_prefix)
  then have "\<forall>k. has_run (storage_after pre (storage_engine s)) k \<longrightarrow>
            has_run (storage_engine s) k \<or>
            (\<exists>a q v b. pre = a @ RunUp q # Store k # b \<and>
               load_script fs (directory s) q = Inr v \<and> dependency_path v = k)"
    using stored_keys_have_bodies by blast
  ultimately show ?thesis by blast
qed

text \<open>
  C3: a declared dependency whose \<open>up\<close> body never runs. In the root \<open>/a\<close> the
  unit \<open>u\<close> declares \<open>migrations/20240101000000_x\<close> and
  \<open>a/migrations/20240101000000_x\<close>, which resolve to two files. The second, in
  the module \<open>a\<close>, has the \<open>filename\<close> \<open>migrations/20240101000000_x\<close>, since
  \<^verbatim>\<open>replace(self.directory, '')\<close> removes every \<open>/a\<close> of its path, and
  that is the key the first is stored under. With \<open>migrate_dependencies\<close> true
  and nothing recorded at the start, \<open>migrate\<close> runs the body of the first
  dependency, returns from \<open>up\<close> on the second at the check on \<open>filename\<close>, and
  runs the body of \<open>u\<close>: the body of the second dependency is not executed, and
  its \<open>dependency_path\<close> is not recorded.
\<close>

theorem declared_dependency_never_applied:
  "migrate_dependencies live \<and>
   map_sum (\<lambda>_. ()) dependencies (load_script fs_shadow ''/a'' ''/a/20240102000000_u.py'')
     = Inr (Some [''migrations/20240101000000_x'', ''a/migrations/20240101000000_x'']) \<and>
   resolve_dependency_path ''/a'' ''a/migrations/20240101000000_x''
     = ''/a/a/migrations/20240101000000_x.py'' \<and>
   map_sum (\<lambda>_. ()) (\<lambda>d. (filename d, dependency_path d, dependencies d))
       (load_script fs_shadow ''/a'' ''/a/a/migrations/20240101000000_x.py'')
     = Inr (''migrations/20240101000000_x'', ''a/migrations/20240101000000_x'', None) \<and>
   new_events (fresh (DynamoDB []) ''/a'') (migrate 5 live fs_shadow (fresh (DynamoDB []) ''/a''))
     = [RunUp ''/a/migrations/20240101000000_x.py'', Store ''migrations/20240101000000_x'',
        RunUp ''/a/20240102000000_u.py'', Store ''20240102000000_u''] \<and>
   world (state_of (migrate 5 live fs_shadow (fresh (DynamoDB []) ''/a''))) = [''up e'', ''up u''] \<and>
   \<not> has_run (storage_engine (state_of (migrate 5 live fs_shadow (fresh (DynamoDB []) ''/a''))))
       ''a/migrations/20240101000000_x''"
  by code_simp

section \<open>The memory engine's delete\<close>

text \<open>
  C10: \<open>MemoryStorageEngine.delete(id)\<close> raises exactly when \<open>has_run(id)\<close> is
  false; when \<open>has_run(id)\<close> is true it succeeds and \<open>has_run(id)\<close> is false
  afterwards.
\<close>

theorem memory_delete_raises_iff:
  "(\<exists>e. delete (Memory data) k = Inl e) = (\<not> has_run (Memory data) k) \<and>
   (has_run (Memory data) k \<longrightarrow>
      (\<exists>data'. delete (Memory data) k = Inr (Memory data') \<and> \<not> has_run (Memory data') k))"
  by auto

theorem memory_delete_raises_iff_witness:
  "(\<exists>e. delete (Memory [''a'' \<mapsto> True]) ''a'' = Inl e) = (\<not> has_run (Memory [''a'' \<mapsto> True]) ''a'') \<and>
   has_run (Memory [''a'' \<mapsto> True]) ''a'' \<and>
   (\<exists>data'. delete (Memory [''a'' \<mapsto> True]) ''a'' = Inr (Memory data') \<and> \<not> has_run (Memory data') ''a'')"
  using memory_delete_raises_iff [of "[''a'' \<mapsto> True]" "''a''"] by simp

end
